theory Spec2Isabelle
  imports Main "HOL-Library.Multiset"
begin

section \<open>The oncall relay: data model\<close>

text \<open>
  The development embeds the request handlers of \<^verbatim>\<open>server.js\<close> (the current version of
  the file, with the \<^verbatim>\<open>ui\<close>/\<^verbatim>\<open>data\<close> columns and the webhooks table): the prepared
  statements \<^verbatim>\<open>stmts.*\<close>, \<^verbatim>\<open>sendToAll\<close>, \<^verbatim>\<open>fireWebhooks\<close> and the route handlers.
  Every handler is a function from the database before the request to the database
  after it, the response, and the list of outward effects in program order.

  Request bodies are taken at the types the README documents: text fields are JavaScript
  strings or absent (\<open>None\<close> stands for \<^verbatim>\<open>undefined\<close> and \<^verbatim>\<open>null\<close>), \<^verbatim>\<open>ui\<close> and
  \<^verbatim>\<open>data\<close> are arbitrary JSON values. The handlers are embedded as they run once the
  \<^verbatim>\<open>checkAuth\<close> middleware has let the request through.
\<close>

datatype json =
    JUndefined
  | JNull
  | JBool bool
  | JNum int
  | JStr string
  | JArr "json list"
  | JObj "(string \<times> json) list"

text \<open>JavaScript truthiness, as used by \<^verbatim>\<open>!x\<close>, \<^verbatim>\<open>x || y\<close> and \<^verbatim>\<open>x ? a : b\<close>.\<close>

fun truthy :: "json \<Rightarrow> bool" where
  "truthy JUndefined = False"
| "truthy JNull = False"
| "truthy (JBool b) = b"
| "truthy (JNum n) = (n \<noteq> 0)"
| "truthy (JStr s) = (s \<noteq> [])"
| "truthy (JArr _) = True"
| "truthy (JObj _) = True"

definition truthyJ :: "json option \<Rightarrow> bool" where
  "truthyJ v = (case v of None \<Rightarrow> False | Some j \<Rightarrow> truthy j)"

text \<open>A text field: absent, or a string, which is truthy when it is not empty.\<close>

definition truthyS :: "string option \<Rightarrow> bool" where
  "truthyS v = (case v of None \<Rightarrow> False | Some s \<Rightarrow> s \<noteq> [])"

text \<open>
  \<^verbatim>\<open>datetime('now')\<close> has a resolution of one second and a fixed-width rendering
  \<^verbatim>\<open>YYYY-MM-DD HH:MM:SS\<close>, so that SQLite's text comparison of two timestamps is the
  comparison of the seconds they denote. A timestamp is that number of seconds.
\<close>

type_synonym timestamp = nat

record subscription =
  sub_id :: nat
  endpoint :: string
  keys_p256dh :: string
  keys_auth :: string
  createdAt :: timestamp

datatype msg_type = Notification | Response

record message =
  msg_id :: string
  title :: string
  body :: string
  sentAt :: timestamp
  mtype :: msg_type
  parentId :: "string option"
  ui :: "string option"
  data :: "string option"

record webhook =
  wh_id :: nat
  url :: string
  events :: string
  wh_createdAt :: timestamp

text \<open>
  The three tables, each as the list of its rows in rowid order (the order of a table
  scan), and the \<^verbatim>\<open>sqlite_sequence\<close> counters of the two AUTOINCREMENT tables.
\<close>

record database =
  subscriptions :: "subscription list"
  sub_seq :: nat
  messages :: "message list"
  webhooks :: "webhook list"
  wh_seq :: nat

datatype sqlite_error = ConstraintNotNull | ConstraintPrimaryKey | ConstraintForeignKey

section \<open>The prepared statements\<close>

text \<open>
  \<^verbatim>\<open>INSERT OR REPLACE INTO subscriptions (endpoint, keys_p256dh, keys_auth) VALUES (?, ?, ?)\<close>:
  a NULL in a NOT NULL column without default aborts the statement; a row with the same
  (UNIQUE) endpoint is deleted; the new row takes the next AUTOINCREMENT id and the
  default \<^verbatim>\<open>createdAt\<close>.
\<close>

definition insertSub ::
  "timestamp \<Rightarrow> string option \<Rightarrow> string option \<Rightarrow> string option \<Rightarrow> database
     \<Rightarrow> sqlite_error + database" where
  "insertSub now e p a db =
     (case (e, p, a) of
        (Some e', Some p', Some a') \<Rightarrow>
          Inr (db\<lparr>subscriptions :=
                   filter (\<lambda>s. endpoint s \<noteq> e') (subscriptions db) @
                   [\<lparr>sub_id = sub_seq db + 1, endpoint = e', keys_p256dh = p',
                     keys_auth = a', createdAt = now\<rparr>],
                 sub_seq := sub_seq db + 1\<rparr>)
      | _ \<Rightarrow> Inl ConstraintNotNull)"

text \<open>
  \<^verbatim>\<open>DELETE FROM subscriptions WHERE endpoint = ?\<close>; no row is equal to a bound NULL.
\<close>

definition deleteSub :: "string option \<Rightarrow> database \<Rightarrow> database" where
  "deleteSub e db =
     db\<lparr>subscriptions := filter (\<lambda>s. Some (endpoint s) \<noteq> e) (subscriptions db)\<rparr>"

text \<open>
  \<^verbatim>\<open>SELECT * FROM subscriptions ORDER BY createdAt DESC\<close>. The statement names no second
  key, and SQL leaves the order of rows with equal keys open; SQLite scans the table in
  rowid order and its sorter returns rows with equal \<^verbatim>\<open>createdAt\<close> in the order of the
  scan. The result is the stable sort of the rows, descending in the key.
\<close>

definition getAllSubs :: "database \<Rightarrow> subscription list" where
  "getAllSubs db = sort_key (\<lambda>s. - int (createdAt s)) (subscriptions db)"

text \<open>\<^verbatim>\<open>SELECT COUNT(*) as count FROM subscriptions\<close>\<close>

definition getSubCount :: "database \<Rightarrow> nat" where
  "getSubCount db = length (subscriptions db)"

text \<open>
  \<^verbatim>\<open>INSERT INTO messages (id, title, body, type, parentId, ui, data) VALUES (?, ?, ?, ?, ?, ?, ?)\<close>:
  \<^verbatim>\<open>title\<close> and \<^verbatim>\<open>body\<close> are NOT NULL, \<^verbatim>\<open>id\<close> is the primary key, and with
  \<^verbatim>\<open>foreign_keys = ON\<close> a non-NULL \<^verbatim>\<open>parentId\<close> must be the id of a row of the table
  once the statement is done. \<^verbatim>\<open>sentAt\<close> takes its default.
\<close>

definition insertMessage ::
  "timestamp \<Rightarrow> string \<Rightarrow> string option \<Rightarrow> string option \<Rightarrow> msg_type \<Rightarrow> string option
     \<Rightarrow> string option \<Rightarrow> string option \<Rightarrow> database \<Rightarrow> sqlite_error + database" where
  "insertMessage now i t b ty par u d db =
     (case (t, b) of
        (Some t', Some b') \<Rightarrow>
          if i \<in> set (map msg_id (messages db)) then Inl ConstraintPrimaryKey
          else if (case par of None \<Rightarrow> False
                   | Some q \<Rightarrow> q \<notin> set (map msg_id (messages db)) \<and> q \<noteq> i)
            then Inl ConstraintForeignKey
          else Inr (db\<lparr>messages := messages db @
                      [\<lparr>msg_id = i, title = t', body = b', sentAt = now, mtype = ty,
                        parentId = par, ui = u, data = d\<rparr>]\<rparr>)
      | _ \<Rightarrow> Inl ConstraintNotNull)"

text \<open>
  \<^verbatim>\<open>SELECT id, title, body, sentAt, type, parentId, ui, data FROM messages ORDER BY sentAt DESC LIMIT 100\<close>
\<close>

definition getMessages :: "database \<Rightarrow> message list" where
  "getMessages db = take 100 (sort_key (\<lambda>m. - int (sentAt m)) (messages db))"

text \<open>
  \<^verbatim>\<open>SELECT id FROM messages WHERE type = 'notification' ORDER BY sentAt DESC LIMIT 1\<close>,
  prepared inside the respond handler, with \<^verbatim>\<open>.get()\<close>: the first row of the result or
  \<^verbatim>\<open>undefined\<close>. Again the statement names no second key. With a LIMIT, SQLite keeps
  the rows in a sorted table whose key is \<^verbatim>\<open>sentAt\<close> descending, then the sequence
  number of the scan ascending: among notifications with the same \<^verbatim>\<open>sentAt\<close> the first
  in rowid order comes first. Rows are never deleted from \<^verbatim>\<open>messages\<close>, so the rowid
  order is the order of insertion.
\<close>

definition latestNotification :: "database \<Rightarrow> string option" where
  "latestNotification db =
     (case sort_key (\<lambda>m. - int (sentAt m)) (filter (\<lambda>m. mtype m = Notification) (messages db)) of
        [] \<Rightarrow> None
      | m # _ \<Rightarrow> Some (msg_id m))"

text \<open>\<^verbatim>\<open>INSERT OR REPLACE INTO webhooks (url, events) VALUES (?, ?)\<close>\<close>

definition insertWebhook ::
  "timestamp \<Rightarrow> string option \<Rightarrow> string option \<Rightarrow> database \<Rightarrow> sqlite_error + database" where
  "insertWebhook now u ev db =
     (case (u, ev) of
        (Some u', Some ev') \<Rightarrow>
          Inr (db\<lparr>webhooks :=
                   filter (\<lambda>h. url h \<noteq> u') (webhooks db) @
                   [\<lparr>wh_id = wh_seq db + 1, url = u', events = ev', wh_createdAt = now\<rparr>],
                 wh_seq := wh_seq db + 1\<rparr>)
      | _ \<Rightarrow> Inl ConstraintNotNull)"

text \<open>\<^verbatim>\<open>DELETE FROM webhooks WHERE url = ?\<close>\<close>

definition deleteWebhook :: "string option \<Rightarrow> database \<Rightarrow> database" where
  "deleteWebhook u db = db\<lparr>webhooks := filter (\<lambda>h. Some (url h) \<noteq> u) (webhooks db)\<rparr>"

text \<open>\<^verbatim>\<open>SELECT * FROM webhooks\<close>\<close>

definition getAllWebhooks :: "database \<Rightarrow> webhook list" where
  "getAllWebhooks db = webhooks db"

section \<open>External collaborators\<close>

text \<open>
  The outcome of one \<^verbatim>\<open>webpush.sendNotification\<close>: the promise resolves, or rejects with
  an error whose \<^verbatim>\<open>statusCode\<close> and \<^verbatim>\<open>body\<close> may be undefined (a network error).
\<close>

datatype push_outcome = Delivered | Rejected "nat option" "string option"

text \<open>
  What the handlers take from outside: the push service (the outcome of a push to an
  endpoint with its key material, a payload and an optional TTL), the order in which the
  pending pushes of one \<^verbatim>\<open>Promise.all\<close> settle, and \<^verbatim>\<open>JSON.stringify\<close>.
\<close>

record world =
  sendNotification :: "string \<times> string \<times> string \<Rightarrow> string \<Rightarrow> nat option \<Rightarrow> push_outcome"
  settleOrder :: "subscription list \<Rightarrow> subscription list"
  stringify :: "json \<Rightarrow> string"

record push_error =
  status :: "nat option"
  err_body :: "string option"
  err_endpoint :: string

record results =
  sent :: nat
  failed :: nat
  removed :: nat
  errors :: "push_error list"

datatype hook_payload =
    NotificationEvent string "string option" "string option"
  | ResponseEvent string "string option" "string option" "json option"

datatype ws_event =
    WsSubscription nat
  | WsNotification string "string option" "string option" "json option"
  | WsNotificationResults string "string option" "string option" results
  | WsResponse string "string option" "string option" "json option"

text \<open>
  The outward effects of a handler, in the order the program issues them: the insertion
  of a message row, the start of a push to an endpoint, a call of \<^verbatim>\<open>broadcastWs\<close> (the
  event goes to every open socket), and the POST of an event to a webhook url.
\<close>

datatype effect =
    InsertedMessage string
  | PushAttempt string string "nat option"
  | Broadcast ws_event
  | WebhookPost string hook_payload

text \<open>
  How a handler ends: status 400 with its error text, one of the 200 bodies, nothing (the
  socket handler sends no reply of its own), or the exception of a statement, which
  leaves the handler.
\<close>

datatype response =
    BadRequest string
  | OkTrue
  | NotifyOk string results
  | RespondOk string
  | PurgeOk nat nat
  | NoReply
  | Threw sqlite_error

section \<open>Push dispatch\<close>

definition pushSub :: "subscription \<Rightarrow> string \<times> string \<times> string" where
  "pushSub sub = (endpoint sub, keys_p256dh sub, keys_auth sub)"

text \<open>
  The part of the \<^verbatim>\<open>sendToAll\<close> callback that runs once the push to \<open>sub\<close> has
  settled: it runs to its end without suspending.
\<close>

definition sendToAll_settled ::
  "world \<Rightarrow> string \<Rightarrow> subscription \<Rightarrow> database \<times> results \<Rightarrow> database \<times> results" where
  "sendToAll_settled w payload sub acc =
     (case acc of (db, r) \<Rightarrow>
        (case sendNotification w (pushSub sub) payload None of
           Delivered \<Rightarrow> (db, r\<lparr>sent := sent r + 1\<rparr>)
         | Rejected sc bd \<Rightarrow>
             (let r' = r\<lparr>failed := failed r + 1,
                        errors := errors r @
                          [\<lparr>status = sc, err_body = bd,
                            err_endpoint = take 60 (endpoint sub) @ ''...''\<rparr>]\<rparr>
              in if sc = Some 404 \<or> sc = Some 410
                 then (deleteSub (Some (endpoint sub)) db, r'\<lparr>removed := removed r' + 1\<rparr>)
                 else (db, r'))))"

text \<open>
  \<^verbatim>\<open>sendToAll(subs, payload)\<close>: every push is started, in the order of \<open>subs\<close>; the
  callbacks then run in the order the pushes settle, and the summary is returned when
  all have.
\<close>

definition sendToAll ::
  "world \<Rightarrow> subscription list \<Rightarrow> string \<Rightarrow> database \<Rightarrow> database \<times> results" where
  "sendToAll w subs payload db =
     fold (sendToAll_settled w payload) (settleOrder w subs)
       (db, \<lparr>sent = 0, failed = 0, removed = 0, errors = []\<rparr>)"

definition pushAttempts :: "subscription list \<Rightarrow> string \<Rightarrow> nat option \<Rightarrow> effect list" where
  "pushAttempts subs payload ttl = map (\<lambda>sub. PushAttempt (endpoint sub) payload ttl) subs"

section \<open>Webhooks\<close>

text \<open>\<^verbatim>\<open>s.split(",")\<close>: the pieces of \<open>s\<close> between its commas; one piece when there is none.\<close>

fun split_comma :: "string \<Rightarrow> string list" where
  "split_comma [] = [[]]"
| "split_comma (c # cs) =
     (if c = CHR '','' then [] # split_comma cs
      else (case split_comma cs of
              [] \<Rightarrow> [[c]]
            | p # ps \<Rightarrow> (c # p) # ps))"

text \<open>\<^verbatim>\<open>ps.join(",")\<close>, the inverse of the split.\<close>

fun join_comma :: "string list \<Rightarrow> string" where
  "join_comma [] = []"
| "join_comma [p] = p"
| "join_comma (p # q # ps) = p @ CHR '','' # join_comma (q # ps)"

definition hookMatches :: "string \<Rightarrow> webhook \<Rightarrow> bool" where
  "hookMatches event h = (events h = ''*'' \<or> event \<in> set (split_comma (events h)))"

text \<open>\<^verbatim>\<open>fireWebhooks(event, payload)\<close>: one POST to each webhook the filter lets through.\<close>

definition fireWebhooks :: "string \<Rightarrow> hook_payload \<Rightarrow> database \<Rightarrow> effect list" where
  "fireWebhooks event payload db =
     map (\<lambda>h. WebhookPost (url h) payload) (filter (hookMatches event) (getAllWebhooks db))"

section \<open>The request handlers\<close>

text \<open>
  A handler takes what it draws from outside while it runs: the collaborators \<open>w\<close>, the
  second \<open>now\<close> that \<^verbatim>\<open>datetime('now')\<close> gives the row it inserts, and the identifier
  \<open>uuid\<close> that \<^verbatim>\<open>uuidv4()\<close> returns. It runs alone: requests that interleave with the
  pushes of a dispatch are outside this embedding.
\<close>

record keys =
  p256dh :: "string option"
  auth :: "string option"

record subscribe_body =
  req_endpoint :: "string option"
  req_keys :: "keys option"

record notify_body =
  req_title :: "string option"
  req_body :: "string option"
  req_url :: "string option"
  req_tag :: "string option"
  req_ui :: "json option"

record respond_body =
  req_messageId :: "string option"
  req_text :: "string option"
  req_data :: "json option"

record webhook_body =
  req_hook_url :: "string option"
  req_events :: "string option"

record ws_msg =
  ws_type :: "string option"
  ws_title :: "string option"
  ws_body :: "string option"

text \<open>A frame received on the socket: \<^verbatim>\<open>JSON.parse\<close> throws on it, or gives an object.\<close>

datatype ws_input = Unparseable | Parsed ws_msg

definition optJ :: "string option \<Rightarrow> json" where
  "optJ v = (case v of None \<Rightarrow> JUndefined | Some s \<Rightarrow> JStr s)"

text \<open>\<^verbatim>\<open>x ? JSON.stringify(x) : null\<close>\<close>

definition stringifyOrNull :: "world \<Rightarrow> json option \<Rightarrow> string option" where
  "stringifyOrNull w v =
     (case v of None \<Rightarrow> None | Some j \<Rightarrow> if truthy j then Some (stringify w j) else None)"

text \<open>\<^verbatim>\<open>app.post("/api/subscribe")\<close>\<close>

definition subscribe ::
  "timestamp \<Rightarrow> subscribe_body \<Rightarrow> database \<Rightarrow> database \<times> response \<times> effect list" where
  "subscribe now req db =
     (let e = req_endpoint req;
          p = Option.bind (req_keys req) p256dh;
          a = Option.bind (req_keys req) auth
      in if \<not> truthyS e \<or> \<not> truthyS p \<or> \<not> truthyS a
         then (db, BadRequest ''Invalid subscription'', [])
         else (case insertSub now e p a db of
                 Inl err \<Rightarrow> (db, Threw err, [])
               | Inr db' \<Rightarrow> (db', OkTrue, [Broadcast (WsSubscription (getSubCount db'))])))"

text \<open>\<^verbatim>\<open>app.delete("/api/subscribe")\<close>\<close>

definition unsubscribe ::
  "string option \<Rightarrow> database \<Rightarrow> database \<times> response \<times> effect list" where
  "unsubscribe e db =
     (if \<not> truthyS e then (db, BadRequest ''Missing endpoint'', [])
      else (let db' = deleteSub e db
            in (db', OkTrue, [Broadcast (WsSubscription (getSubCount db'))])))"

text \<open>\<^verbatim>\<open>JSON.stringify({ title, body, url, tag, messageId })\<close>\<close>

definition notifyPayload :: "world \<Rightarrow> notify_body \<Rightarrow> string \<Rightarrow> string" where
  "notifyPayload w req messageId =
     stringify w (JObj
       [(''title'', optJ (req_title req)), (''body'', optJ (req_body req)),
        (''url'', optJ (req_url req)), (''tag'', optJ (req_tag req)),
        (''messageId'', JStr messageId)])"

text \<open>\<^verbatim>\<open>app.post("/api/notify")\<close>\<close>

definition notify ::
  "world \<Rightarrow> timestamp \<Rightarrow> string \<Rightarrow> notify_body \<Rightarrow> database
     \<Rightarrow> database \<times> response \<times> effect list" where
  "notify w now uuid req db =
     (if \<not> truthyS (req_title req) \<or> \<not> truthyS (req_body req)
      then (db, BadRequest ''title and body required'', [])
      else
        (let messageId = uuid;
             uiJson = stringifyOrNull w (req_ui req)
         in case insertMessage now messageId (req_title req) (req_body req)
                   Notification None uiJson None db of
              Inl err \<Rightarrow> (db, Threw err, [])
            | Inr db1 \<Rightarrow>
                (let subs = getAllSubs db1;
                     payload = notifyPayload w req messageId
                 in case sendToAll w subs payload db1 of
                      (db2, res) \<Rightarrow>
                        (db2, NotifyOk messageId res,
                         InsertedMessage messageId # pushAttempts subs payload None @
                         Broadcast (WsNotification messageId (req_title req) (req_body req)
                           (if truthyJ (req_ui req) then req_ui req else None)) #
                         fireWebhooks ''notification''
                           (NotificationEvent messageId (req_title req) (req_body req)) db2))))"

text \<open>\<^verbatim>\<open>app.post("/api/respond")\<close>\<close>

definition respond ::
  "world \<Rightarrow> timestamp \<Rightarrow> string \<Rightarrow> respond_body \<Rightarrow> database
     \<Rightarrow> database \<times> response \<times> effect list" where
  "respond w now uuid req db =
     (if \<not> truthyS (req_text req) \<and> \<not> truthyJ (req_data req)
      then (db, BadRequest ''text or data required'', [])
      else
        (let messageId = (if \<not> truthyS (req_messageId req) then latestNotification db
                          else req_messageId req);
             responseId = uuid;
             dataJson = stringifyOrNull w (req_data req)
         in case insertMessage now responseId (Some ''Response'')
                   (if truthyS (req_text req) then req_text req else Some [])
                   Response messageId None dataJson db of
              Inl err \<Rightarrow> (db, Threw err, [])
            | Inr db1 \<Rightarrow>
                (db1, RespondOk responseId,
                 InsertedMessage responseId #
                 Broadcast (WsResponse responseId messageId (req_text req) (req_data req)) #
                 fireWebhooks ''response''
                   (ResponseEvent responseId messageId (req_text req) (req_data req)) db1)))"

text \<open>\<^verbatim>\<open>app.post("/api/purge")\<close>: the callback once the probe to \<open>sub\<close> has settled.\<close>

definition purge_settled ::
  "world \<Rightarrow> string \<Rightarrow> subscription \<Rightarrow> database \<times> nat \<Rightarrow> database \<times> nat" where
  "purge_settled w probe sub acc =
     (case acc of (db, removed') \<Rightarrow>
        (case sendNotification w (pushSub sub) probe (Some 0) of
           Delivered \<Rightarrow> (db, removed')
         | Rejected sc bd \<Rightarrow>
             if sc = Some 404 \<or> sc = Some 410
             then (deleteSub (Some (endpoint sub)) db, removed' + 1)
             else (db, removed')))"

text \<open>\<^verbatim>\<open>JSON.stringify({ title: "oncall", body: "subscription verified" })\<close>\<close>

definition probePayload :: "world \<Rightarrow> string" where
  "probePayload w =
     stringify w (JObj [(''title'', JStr ''oncall''), (''body'', JStr ''subscription verified'')])"

definition purge :: "world \<Rightarrow> database \<Rightarrow> database \<times> response \<times> effect list" where
  "purge w db =
     (let subs = getAllSubs db;
          probe = probePayload w
      in case fold (purge_settled w probe) (settleOrder w subs) (db, 0) of
           (db1, removed') \<Rightarrow>
             (db1, PurgeOk removed' (getSubCount db1),
              pushAttempts subs probe (Some 0) @
              [Broadcast (WsSubscription (getSubCount db1))]))"

text \<open>\<^verbatim>\<open>app.post("/api/webhooks")\<close> and \<^verbatim>\<open>app.delete("/api/webhooks")\<close>\<close>

definition addWebhook ::
  "timestamp \<Rightarrow> webhook_body \<Rightarrow> database \<Rightarrow> database \<times> response \<times> effect list" where
  "addWebhook now req db =
     (if \<not> truthyS (req_hook_url req) then (db, BadRequest ''url required'', [])
      else (case insertWebhook now (req_hook_url req)
                   (if truthyS (req_events req) then req_events req else Some ''response'') db of
              Inl err \<Rightarrow> (db, Threw err, [])
            | Inr db' \<Rightarrow> (db', OkTrue, [])))"

definition removeWebhook ::
  "string option \<Rightarrow> database \<Rightarrow> database \<times> response \<times> effect list" where
  "removeWebhook u db =
     (if \<not> truthyS u then (db, BadRequest ''url required'', [])
      else (deleteWebhook u db, OkTrue, []))"

text \<open>
  The \<^verbatim>\<open>ws.on("message")\<close> handler of an authorised connection: no UI description, no
  webhooks, and the summary goes into the broadcast.
\<close>

definition wsMessage ::
  "world \<Rightarrow> timestamp \<Rightarrow> string \<Rightarrow> ws_input \<Rightarrow> database
     \<Rightarrow> database \<times> response \<times> effect list" where
  "wsMessage w now uuid raw db =
     (case raw of
        Unparseable \<Rightarrow> (db, NoReply, [])
      | Parsed msg \<Rightarrow>
          if ws_type msg = Some ''notify'' \<and> truthyS (ws_title msg) \<and> truthyS (ws_body msg)
          then
            (let messageId = uuid
             in case insertMessage now messageId (ws_title msg) (ws_body msg)
                       Notification None None None db of
                  Inl err \<Rightarrow> (db, Threw err, [])
                | Inr db1 \<Rightarrow>
                    (let subs = getAllSubs db1;
                         payload = stringify w (JObj
                           [(''title'', optJ (ws_title msg)), (''body'', optJ (ws_body msg)),
                            (''messageId'', JStr messageId)])
                     in case sendToAll w subs payload db1 of
                          (db2, res) \<Rightarrow>
                            (db2, NoReply,
                             InsertedMessage messageId # pushAttempts subs payload None @
                             [Broadcast (WsNotificationResults messageId (ws_title msg)
                                (ws_body msg) res)])))
          else (db, NoReply, []))"

text \<open>The operations that can change the state, and the server as a step function.\<close>

datatype request =
    PostSubscribe subscribe_body
  | DeleteSubscribe "string option"
  | PostNotify notify_body
  | PostRespond respond_body
  | PostPurge
  | PostWebhooks webhook_body
  | DeleteWebhooks "string option"
  | WsMessage ws_input

fun handle ::
  "world \<Rightarrow> timestamp \<Rightarrow> string \<Rightarrow> request \<Rightarrow> database
     \<Rightarrow> database \<times> response \<times> effect list" where
  "handle w now uuid (PostSubscribe req) db = subscribe now req db"
| "handle w now uuid (DeleteSubscribe e) db = unsubscribe e db"
| "handle w now uuid (PostNotify req) db = notify w now uuid req db"
| "handle w now uuid (PostRespond req) db = respond w now uuid req db"
| "handle w now uuid PostPurge db = purge w db"
| "handle w now uuid (PostWebhooks req) db = addWebhook now req db"
| "handle w now uuid (DeleteWebhooks u) db = removeWebhook u db"
| "handle w now uuid (WsMessage raw) db = wsMessage w now uuid raw db"

section \<open>Predicates of the statements below\<close>

text \<open>What the schema keeps true of every database: the UNIQUE and PRIMARY KEY columns
  hold no value twice, and no subscription id is beyond the AUTOINCREMENT counter.\<close>

definition wf_db :: "database \<Rightarrow> bool" where
  "wf_db db =
     (distinct (map endpoint (subscriptions db)) \<and>
      distinct (map url (webhooks db)) \<and>
      distinct (map msg_id (messages db)) \<and>
      list_all (\<lambda>s. sub_id s \<le> sub_seq db) (subscriptions db))"

text \<open>The database once the \<^verbatim>\<open>CREATE TABLE IF NOT EXISTS\<close> statements have run on a new file.\<close>

definition emptyDb :: database where
  "emptyDb = \<lparr>subscriptions = [], sub_seq = 0, messages = [], webhooks = [], wh_seq = 0\<rparr>"

text \<open>The push to \<open>sub\<close> is rejected with a "gone" status.\<close>

definition reportsGone :: "world \<Rightarrow> string \<Rightarrow> nat option \<Rightarrow> subscription \<Rightarrow> bool" where
  "reportsGone w payload ttl sub =
     (case sendNotification w (pushSub sub) payload ttl of
        Delivered \<Rightarrow> False
      | Rejected sc bd \<Rightarrow> sc = Some 404 \<or> sc = Some 410)"

definition pushFails :: "world \<Rightarrow> string \<Rightarrow> nat option \<Rightarrow> subscription \<Rightarrow> bool" where
  "pushFails w payload ttl sub = (sendNotification w (pushSub sub) payload ttl \<noteq> Delivered)"

text \<open>The entry \<^verbatim>\<open>sendToAll\<close> pushes on \<^verbatim>\<open>results.errors\<close> when the push to \<open>sub\<close> is rejected.\<close>

definition pushErrorOf :: "world \<Rightarrow> string \<Rightarrow> subscription \<Rightarrow> push_error" where
  "pushErrorOf w payload sub =
     (case sendNotification w (pushSub sub) payload None of
        Delivered \<Rightarrow> \<lparr>status = None, err_body = None, err_endpoint = []\<rparr>
      | Rejected sc bd \<Rightarrow>
          \<lparr>status = sc, err_body = bd, err_endpoint = take 60 (endpoint sub) @ ''...''\<rparr>)"

text \<open>
  The message-kind invariant: a notification carries no response data, and the title of
  a response is the fixed label.
\<close>

definition goodRow :: "message \<Rightarrow> bool" where
  "goodRow m =
     (case mtype m of Notification \<Rightarrow> data m = None | Response \<Rightarrow> title m = ''Response'')"

definition kindInvariant :: "database \<Rightarrow> bool" where
  "kindInvariant db = list_all goodRow (messages db)"

text \<open>
  A request that fails validation, in the words of the interface: a notify without title
  or without body, a respond with neither text nor data, a subscribe without endpoint or
  without one of the two keys, an unsubscribe without endpoint, a webhook registration or
  removal without url. A field holding a falsy value (the empty string; for \<^verbatim>\<open>data\<close>
  also \<^verbatim>\<open>null\<close>, \<^verbatim>\<open>false\<close> and \<^verbatim>\<open>0\<close>) counts as missing.
\<close>

definition missing :: "string option \<Rightarrow> bool" where
  "missing v = (v = None \<or> v = Some [])"

definition missingJ :: "json option \<Rightarrow> bool" where
  "missingJ v =
     (v = None \<or> v = Some JUndefined \<or> v = Some JNull \<or> v = Some (JBool False) \<or>
      v = Some (JNum 0) \<or> v = Some (JStr []))"

fun failsValidation :: "request \<Rightarrow> bool" where
  "failsValidation (PostNotify req) = (missing (req_title req) \<or> missing (req_body req))"
| "failsValidation (PostRespond req) = (missing (req_text req) \<and> missingJ (req_data req))"
| "failsValidation (PostSubscribe req) =
     (missing (req_endpoint req) \<or>
      (case req_keys req of
         None \<Rightarrow> True
       | Some k \<Rightarrow> missing (p256dh k) \<or> missing (auth k)))"
| "failsValidation (DeleteSubscribe e) = missing e"
| "failsValidation (PostWebhooks req) = missing (req_hook_url req)"
| "failsValidation (DeleteWebhooks u) = missing u"
| "failsValidation PostPurge = False"
| "failsValidation (WsMessage raw) = False"

section \<open>Concrete states\<close>

text \<open>
  A push service that delivers to endpoint \<open>a\<close>, answers 410 for \<open>b\<close> and 500 for every
  other endpoint, whatever the payload; the pushes settle in the reverse of the order
  they were started in.
\<close>

definition ex_world :: world where
  "ex_world =
     \<lparr>sendNotification = (\<lambda>ps payload ttl.
        if fst ps = ''a'' then Delivered
        else if fst ps = ''b'' then Rejected (Some 410) (Some ''gone'')
        else Rejected (Some 500) None),
      settleOrder = rev,
      stringify = (\<lambda>j. ''{}'')\<rparr>"

definition sub_a :: subscription where
  "sub_a = \<lparr>sub_id = 1, endpoint = ''a'', keys_p256dh = ''p1'', keys_auth = ''k1'', createdAt = 5\<rparr>"

definition sub_b :: subscription where
  "sub_b = \<lparr>sub_id = 2, endpoint = ''b'', keys_p256dh = ''p2'', keys_auth = ''k2'', createdAt = 5\<rparr>"

definition sub_c :: subscription where
  "sub_c = \<lparr>sub_id = 3, endpoint = ''c'', keys_p256dh = ''p3'', keys_auth = ''k3'', createdAt = 7\<rparr>"

definition ex_db :: database where
  "ex_db = \<lparr>subscriptions = [sub_a, sub_b, sub_c], sub_seq = 3, messages = [],
            webhooks = [], wh_seq = 0\<rparr>"

text \<open>
  A log with two notifications recorded within the same second, \<open>n1\<close> before \<open>n2\<close>, and
  three webhooks: one for notifications, one for everything, one for a list of events.
\<close>

definition msg_n1 :: message where
  "msg_n1 = \<lparr>msg_id = ''n1'', title = ''Deploy'', body = ''Ready'', sentAt = 10,
              mtype = Notification, parentId = None, ui = None, data = None\<rparr>"

definition msg_n2 :: message where
  "msg_n2 = \<lparr>msg_id = ''n2'', title = ''Rollback'', body = ''Sure'', sentAt = 10,
              mtype = Notification, parentId = None, ui = None, data = None\<rparr>"

definition hook_n :: webhook where
  "hook_n = \<lparr>wh_id = 1, url = ''http://n'', events = ''notification'', wh_createdAt = 1\<rparr>"

definition hook_all :: webhook where
  "hook_all = \<lparr>wh_id = 2, url = ''http://all'', events = ''*'', wh_createdAt = 2\<rparr>"

definition hook_list :: webhook where
  "hook_list = \<lparr>wh_id = 3, url = ''http://list'', events = ''response,notification'',
                 wh_createdAt = 3\<rparr>"

definition ex_log :: database where
  "ex_log = \<lparr>subscriptions = [sub_a, sub_b, sub_c], sub_seq = 3, messages = [msg_n1, msg_n2],
             webhooks = [hook_n, hook_all, hook_list], wh_seq = 3\<rparr>"

text \<open>The notify request of the scenario: \<^verbatim>\<open>{title: "Deploy", body: "Ready"}\<close>.\<close>

definition ex_req :: notify_body where
  "ex_req = \<lparr>req_title = Some ''Deploy'', req_body = Some ''Ready'', req_url = None,
              req_tag = None, req_ui = None\<rparr>"

section \<open>Push dispatch: the delivery summary\<close>

lemma settled_delivered:
  assumes "\<not> pushFails w payload None x"
  shows "sendToAll_settled w payload x (db, r) = (db, r\<lparr>sent := sent r + 1\<rparr>)"
  using assms by (simp add: sendToAll_settled_def pushFails_def)

lemma settled_kept:
  assumes "pushFails w payload None x" and "\<not> reportsGone w payload None x"
  shows "sendToAll_settled w payload x (db, r) =
           (db, r\<lparr>failed := failed r + 1, errors := errors r @ [pushErrorOf w payload x]\<rparr>)"
  using assms
  by (auto simp: sendToAll_settled_def pushFails_def reportsGone_def pushErrorOf_def Let_def
           split: push_outcome.splits)

lemma settled_gone:
  assumes "reportsGone w payload None x"
  shows "sendToAll_settled w payload x (db, r) =
           (deleteSub (Some (endpoint x)) db,
            r\<lparr>failed := failed r + 1, errors := errors r @ [pushErrorOf w payload x],
              removed := removed r + 1\<rparr>)"
  using assms
  by (auto simp: sendToAll_settled_def reportsGone_def pushErrorOf_def Let_def
           split: push_outcome.splits)

lemma gone_fails: "reportsGone w payload ttl x \<Longrightarrow> pushFails w payload ttl x"
  by (auto simp: reportsGone_def pushFails_def split: push_outcome.splits)

text \<open>The loop of callbacks in closed form, for any order of settling.\<close>

lemma sendToAll_fold:
  "fold (sendToAll_settled w payload) xs (db, r) =
     (db\<lparr>subscriptions :=
          filter (\<lambda>s. endpoint s \<notin> set (map endpoint (filter (reportsGone w payload None) xs)))
            (subscriptions db)\<rparr>,
      r\<lparr>sent := sent r + length (filter (\<lambda>x. \<not> pushFails w payload None x) xs),
        failed := failed r + length (filter (pushFails w payload None) xs),
        removed := removed r + length (filter (reportsGone w payload None) xs),
        errors := errors r @ map (pushErrorOf w payload) (filter (pushFails w payload None) xs)\<rparr>)"
proof (induction xs arbitrary: db r)
  case Nil
  show ?case by simp
next
  case (Cons x xs)
  consider (ok) "\<not> pushFails w payload None x"
    | (kept) "pushFails w payload None x" "\<not> reportsGone w payload None x"
    | (gone) "reportsGone w payload None x"
    by blast
  then show ?case
  proof cases
    case ok
    then have "\<not> reportsGone w payload None x" using gone_fails by blast
    with ok show ?thesis
      by (simp add: settled_delivered Cons.IH)
  next
    case kept
    then show ?thesis
      by (simp add: settled_kept Cons.IH)
  next
    case gone
    then have f: "pushFails w payload None x" by (rule gone_fails)
    have "filter (\<lambda>s. endpoint s \<notin> set (map endpoint (filter (reportsGone w payload None) xs)))
            (filter (\<lambda>s. Some (endpoint s) \<noteq> Some (endpoint x)) (subscriptions db)) =
          filter (\<lambda>s. endpoint s \<notin> set (map endpoint (filter (reportsGone w payload None) (x # xs))))
            (subscriptions db)"
      using gone by (auto intro!: filter_cong)
    with gone f show ?thesis
      by (simp add: settled_gone Cons.IH deleteSub_def)
  qed
qed

lemma perm_filter_length:
  "mset ys = mset xs \<Longrightarrow> length (filter P ys) = length (filter P xs)"
proof -
  assume "mset ys = mset xs"
  then have "mset (filter P ys) = mset (filter P xs)" by simp
  then show ?thesis by (rule mset_eq_length)
qed

lemma perm_filter_set:
  "mset ys = mset xs \<Longrightarrow> set (filter P ys) = set (filter P xs)"
proof -
  assume "mset ys = mset xs"
  then have "set ys = set xs" by (rule mset_eq_setD)
  then show ?thesis by simp
qed

text \<open>Where endpoints are unique, deleting by endpoint deletes the rows themselves.\<close>

lemma endpoint_mem_iff:
  assumes "distinct (map endpoint T)" and "set ys \<subseteq> set T" and s: "s \<in> set T"
  shows "(endpoint s \<in> set (map endpoint ys)) = (s \<in> set ys)"
proof
  have inj: "inj_on endpoint (set T)" using assms(1) by (simp add: distinct_map)
  assume "endpoint s \<in> set (map endpoint ys)"
  then obtain y where y: "y \<in> set ys" "endpoint y = endpoint s" by auto
  with assms(2) have "y \<in> set T" by blast
  with inj s y(2) have "y = s" by (auto dest: inj_onD)
  with y(1) show "s \<in> set ys" by simp
next
  assume "s \<in> set ys"
  then show "endpoint s \<in> set (map endpoint ys)" by simp
qed

lemma filter_endpoint_in:
  assumes "distinct (map endpoint T)" and "set ys \<subseteq> set T"
  shows "filter (\<lambda>s. endpoint s \<in> set (map endpoint ys)) T = filter (\<lambda>s. s \<in> set ys) T"
  by (rule filter_cong[OF refl]) (rule endpoint_mem_iff[OF assms])

lemma removed_rows_count:
  assumes "distinct (map endpoint T)" and "distinct ys" and "set ys \<subseteq> set T"
  shows "length (filter (\<lambda>s. endpoint s \<notin> set (map endpoint ys)) T) + length ys = length T"
proof -
  have dT: "distinct T" using assms(1) by (simp add: distinct_map)
  have "length (filter (\<lambda>s. endpoint s \<in> set (map endpoint ys)) T) =
        length (filter (\<lambda>s. s \<in> set ys) T)"
    using filter_endpoint_in[OF assms(1) assms(3)] by simp
  also have "\<dots> = card ({s. s \<in> set ys} \<inter> set T)"
    using dT by (rule distinct_length_filter)
  also have "\<dots> = card (set ys)"
    using assms(3) by (simp add: Int_absorb2)
  also have "\<dots> = length ys"
    using assms(2) by (rule distinct_card)
  finally have "length (filter (\<lambda>s. endpoint s \<in> set (map endpoint ys)) T) = length ys" .
  moreover have "length (filter (\<lambda>s. endpoint s \<in> set (map endpoint ys)) T) +
        length (filter (\<lambda>s. \<not> endpoint s \<in> set (map endpoint ys)) T) = length T"
    by (rule sum_length_filter_compl)
  ultimately show ?thesis by simp
qed

lemma remaining_rows_set:
  assumes "distinct (map endpoint T)" and "set ys \<subseteq> set T"
  shows "set (filter (\<lambda>s. endpoint s \<notin> set (map endpoint ys)) T) = set T - set ys"
proof -
  have "filter (\<lambda>s. endpoint s \<notin> set (map endpoint ys)) T = filter (\<lambda>s. s \<notin> set ys) T"
    by (rule filter_cong[OF refl]) (simp only: endpoint_mem_iff[OF assms])
  then show ?thesis by auto
qed

text \<open>
  C2. A dispatch to \<open>N\<close> subscriptions of the registry of which \<open>K\<close> are rejected with a
  "gone" status (404 or 410), in whatever order the pushes settle: the summary has
  \<open>removed = K\<close>, \<open>failed \<ge> K\<close> (the number of rejected pushes) and \<open>sent = N - failed\<close>;
  exactly \<open>K\<close> rows leave the registry, namely the subscriptions that reported gone; and
  a dispatch to no subscription returns \<open>{sent: 0, failed: 0, removed: 0, errors: []}\<close>.
\<close>

theorem sendToAll_summary:
  assumes uniq: "distinct (map endpoint (subscriptions db))"
    and dsubs: "distinct subs"
    and insubs: "set subs \<subseteq> set (subscriptions db)"
    and perm: "mset (settleOrder w subs) = mset subs"
    and run: "sendToAll w subs payload db = (db', r)"
  shows "removed r = length (filter (reportsGone w payload None) subs) \<and>
         failed r = length (filter (pushFails w payload None) subs) \<and>
         removed r \<le> failed r \<and>
         sent r = length subs - failed r \<and>
         failed r \<le> length subs \<and>
         length (subscriptions db') + removed r = length (subscriptions db) \<and>
         set (subscriptions db') =
           set (subscriptions db) - {s \<in> set subs. reportsGone w payload None s} \<and>
         (subs = [] \<longrightarrow> r = \<lparr>sent = 0, failed = 0, removed = 0, errors = []\<rparr>)"
proof -
  let ?G = "reportsGone w payload None"
  let ?F = "pushFails w payload None"
  let ?ord = "settleOrder w subs"
  from run have r: "r = \<lparr>sent = length (filter (\<lambda>x. \<not> ?F x) ?ord),
        failed = length (filter ?F ?ord), removed = length (filter ?G ?ord),
        errors = map (pushErrorOf w payload) (filter ?F ?ord)\<rparr>"
    by (simp add: sendToAll_def sendToAll_fold)
  from run have db': "subscriptions db' =
        filter (\<lambda>s. endpoint s \<notin> set (map endpoint (filter ?G ?ord))) (subscriptions db)"
    by (auto simp add: sendToAll_def sendToAll_fold)
  have rem: "removed r = length (filter ?G subs)"
    using r by (simp add: perm_filter_length[OF perm])
  have fl: "failed r = length (filter ?F subs)"
    using r by (simp add: perm_filter_length[OF perm])
  have st: "sent r = length (filter (\<lambda>x. \<not> ?F x) subs)"
    using r by (simp add: perm_filter_length[OF perm])
  have "filter ?G (filter ?F subs) = filter ?G subs"
    by (auto intro: filter_cong dest: gone_fails)
  moreover have "length (filter ?G (filter ?F subs)) \<le> length (filter ?F subs)"
    by (rule length_filter_le)
  ultimately have "length (filter ?G subs) \<le> length (filter ?F subs)"
    by simp
  with rem fl have le: "removed r \<le> failed r" by simp
  have sum: "length (filter ?F subs) + length (filter (\<lambda>x. \<not> ?F x) subs) = length subs"
    by (rule sum_length_filter_compl)
  have "distinct ?ord"
    using mset_eq_imp_distinct_iff[OF perm] dsubs by simp
  then have dg: "distinct (filter ?G ?ord)"
    by simp
  have sg: "set (filter ?G ?ord) = set (filter ?G subs)"
    using perm by (rule perm_filter_set)
  then have sub: "set (filter ?G ?ord) \<subseteq> set (subscriptions db)"
    using insubs by auto
  have cnt: "length (subscriptions db') + removed r = length (subscriptions db)"
    using removed_rows_count[OF uniq dg sub] db' r by simp
  have sset: "set (subscriptions db') =
      set (subscriptions db) - {s \<in> set subs. ?G s}"
    using remaining_rows_set[OF uniq sub] db' sg by auto
  have zero: "subs = [] \<longrightarrow> r = \<lparr>sent = 0, failed = 0, removed = 0, errors = []\<rparr>"
  proof
    assume "subs = []"
    with perm have "?ord = []" by simp
    with r show "r = \<lparr>sent = 0, failed = 0, removed = 0, errors = []\<rparr>" by simp
  qed
  from fl st sum have "sent r = length subs - failed r" and "failed r \<le> length subs"
    by simp_all
  with rem fl le cnt sset zero show ?thesis by blast
qed

lemma ex_subs: "getAllSubs ex_db = [sub_c, sub_a, sub_b]"
  by (simp add: getAllSubs_def ex_db_def sub_a_def sub_b_def sub_c_def)

lemma ex_run: "sendToAll ex_world [sub_c, sub_a, sub_b] ''x'' ex_db =
   (ex_db\<lparr>subscriptions := [sub_a, sub_c]\<rparr>,
    \<lparr>sent = 1, failed = 2, removed = 1, errors =
      [\<lparr>status = Some 410, err_body = Some ''gone'', err_endpoint = ''b...''\<rparr>,
       \<lparr>status = Some 500, err_body = None, err_endpoint = ''c...''\<rparr>]\<rparr>)"
  by (simp add: ex_db_def sendToAll_def ex_world_def sendToAll_settled_def pushSub_def deleteSub_def sub_a_def sub_b_def sub_c_def)

theorem sendToAll_summary_witness:
  "sendToAll ex_world (getAllSubs ex_db) ''x'' ex_db =
     (ex_db\<lparr>subscriptions := [sub_a, sub_c]\<rparr>,
      \<lparr>sent = 1, failed = 2, removed = 1, errors =
        [\<lparr>status = Some 410, err_body = Some ''gone'', err_endpoint = ''b...''\<rparr>,
         \<lparr>status = Some 500, err_body = None, err_endpoint = ''c...''\<rparr>]\<rparr>) \<and>
   length (getAllSubs ex_db) = 3 \<and>
   length (filter (reportsGone ex_world ''x'' None) (getAllSubs ex_db)) = 1 \<and>
   length (filter (pushFails ex_world ''x'' None) (getAllSubs ex_db)) = 2 \<and>
   length (subscriptions ex_db) = 3 \<and>
   sendToAll ex_world [] ''x'' ex_db = (ex_db, \<lparr>sent = 0, failed = 0, removed = 0, errors = []\<rparr>)"
proof -
  have run: "sendToAll ex_world (getAllSubs ex_db) ''x'' ex_db =
     (ex_db\<lparr>subscriptions := [sub_a, sub_c]\<rparr>,
      \<lparr>sent = 1, failed = 2, removed = 1, errors =
        [\<lparr>status = Some 410, err_body = Some ''gone'', err_endpoint = ''b...''\<rparr>,
         \<lparr>status = Some 500, err_body = None, err_endpoint = ''c...''\<rparr>]\<rparr>)"
    by (simp add: ex_subs ex_run)
  have uniq: "distinct (map endpoint (subscriptions ex_db))"
    by (simp add: ex_db_def sub_a_def sub_b_def sub_c_def)
  have d: "distinct (getAllSubs ex_db)"
    by (simp add: ex_subs sub_a_def sub_b_def sub_c_def)
  have i: "set (getAllSubs ex_db) \<subseteq> set (subscriptions ex_db)"
    by (simp add: getAllSubs_def)
  have l: "length (subscriptions ex_db) = 3"
    by (simp add: ex_db_def)
  have p: "mset (settleOrder ex_world (getAllSubs ex_db)) = mset (getAllSubs ex_db)"
    by (simp add: ex_world_def)
  have run0: "sendToAll ex_world [] ''x'' ex_db = (ex_db, \<lparr>sent = 0, failed = 0, removed = 0, errors = []\<rparr>)"
    by (simp add: sendToAll_def ex_world_def)
  have p0: "mset (settleOrder ex_world []) = mset ([] :: subscription list)"
    by (simp add: ex_world_def)
  from sendToAll_summary[OF uniq d i p run] run run0 l
  show ?thesis
    by (simp add: ex_subs)
qed

section \<open>The stale-subscription purge\<close>

lemma set_getAllSubs: "set (getAllSubs db) = set (subscriptions db)"
  by (simp add: getAllSubs_def)

lemma filter_getAllSubs:
  "filter P (getAllSubs db) = sort_key (\<lambda>s. - int (createdAt s)) (filter P (subscriptions db))"
  by (simp add: getAllSubs_def filter_sort)

lemma purge_settled_kept:
  "\<not> reportsGone w probe (Some 0) x \<Longrightarrow> purge_settled w probe x (db, n) = (db, n)"
  by (auto simp: purge_settled_def reportsGone_def split: push_outcome.splits)

lemma purge_settled_gone:
  "reportsGone w probe (Some 0) x \<Longrightarrow>
     purge_settled w probe x (db, n) = (deleteSub (Some (endpoint x)) db, n + 1)"
  by (auto simp: purge_settled_def reportsGone_def split: push_outcome.splits)

lemma purge_fold:
  "fold (purge_settled w probe) xs (db, n) =
     (db\<lparr>subscriptions :=
          filter (\<lambda>s. endpoint s \<notin> set (map endpoint (filter (reportsGone w probe (Some 0)) xs)))
            (subscriptions db)\<rparr>,
      n + length (filter (reportsGone w probe (Some 0)) xs))"
proof (induction xs arbitrary: db n)
  case Nil
  show ?case by simp
next
  case (Cons x xs)
  show ?case
  proof (cases "reportsGone w probe (Some 0) x")
    case True
    have "filter (\<lambda>s. endpoint s \<notin> set (map endpoint (filter (reportsGone w probe (Some 0)) xs)))
            (filter (\<lambda>s. Some (endpoint s) \<noteq> Some (endpoint x)) (subscriptions db)) =
          filter (\<lambda>s. endpoint s \<notin> set (map endpoint (filter (reportsGone w probe (Some 0)) (x # xs))))
            (subscriptions db)"
      using True by (auto intro!: filter_cong)
    with True show ?thesis
      by (simp add: purge_settled_gone Cons.IH deleteSub_def)
  next
    case False
    then show ?thesis
      by (simp add: purge_settled_kept Cons.IH)
  qed
qed

text \<open>
  C8. The purge sends the probe \<^verbatim>\<open>{title: "oncall", body: "subscription verified"}\<close> with
  TTL 0 to every subscription. Whatever the order in which the probes settle, the rows
  that remain are, in their order, exactly those whose probe was not rejected with status
  404 or 410: a subscription whose probe is delivered is never removed, nor is one whose
  probe fails with another status. The response carries the number of removed rows and
  the number of remaining ones.
\<close>

theorem purge_removes_only_gone:
  assumes uniq: "distinct (map endpoint (subscriptions db))"
    and perm: "mset (settleOrder w (getAllSubs db)) = mset (getAllSubs db)"
    and run: "purge w db = (db', resp, eff)"
  shows "subscriptions db' =
           filter (\<lambda>s. \<not> reportsGone w (probePayload w) (Some 0) s) (subscriptions db) \<and>
         resp = PurgeOk (length (filter (reportsGone w (probePayload w) (Some 0)) (subscriptions db)))
                        (length (subscriptions db')) \<and>
         length (subscriptions db') +
           length (filter (reportsGone w (probePayload w) (Some 0)) (subscriptions db)) =
           length (subscriptions db) \<and>
         (\<forall>s \<in> set (subscriptions db).
            sendNotification w (pushSub s) (probePayload w) (Some 0) = Delivered \<longrightarrow>
            s \<in> set (subscriptions db'))"
proof -
  let ?G = "reportsGone w (probePayload w) (Some 0)"
  let ?subs = "getAllSubs db"
  let ?ord = "settleOrder w ?subs"
  from run have db': "subscriptions db' =
      filter (\<lambda>s. endpoint s \<notin> set (map endpoint (filter ?G ?ord))) (subscriptions db)"
    by (auto simp: purge_def Let_def purge_fold)
  from run have resp: "resp = PurgeOk (length (filter ?G ?ord)) (length (subscriptions db'))"
    by (auto simp: purge_def Let_def purge_fold getSubCount_def)
  have sg: "set (filter ?G ?ord) = set (filter ?G (subscriptions db))"
    using perm_filter_set[OF perm] by (simp add: set_getAllSubs)
  then have sub: "set (filter ?G ?ord) \<subseteq> set (subscriptions db)"
    by auto
  have "filter (\<lambda>s. endpoint s \<notin> set (map endpoint (filter ?G ?ord))) (subscriptions db) =
        filter (\<lambda>s. s \<notin> set (filter ?G ?ord)) (subscriptions db)"
    by (rule filter_cong[OF refl]) (simp only: endpoint_mem_iff[OF uniq sub])
  also have "\<dots> = filter (\<lambda>s. \<not> ?G s) (subscriptions db)"
    unfolding sg by (rule filter_cong[OF refl]) simp
  finally have eq: "subscriptions db' = filter (\<lambda>s. \<not> ?G s) (subscriptions db)"
    using db' by simp
  have "length (filter ?G ?ord) = length (filter ?G ?subs)"
    by (rule perm_filter_length[OF perm])
  also have "\<dots> = length (filter ?G (subscriptions db))"
    by (simp add: filter_getAllSubs)
  finally have k: "length (filter ?G ?ord) = length (filter ?G (subscriptions db))" .
  have sum: "length (filter ?G (subscriptions db)) +
      length (filter (\<lambda>s. \<not> ?G s) (subscriptions db)) = length (subscriptions db)"
    by (rule sum_length_filter_compl)
  have keep: "\<forall>s \<in> set (subscriptions db).
      sendNotification w (pushSub s) (probePayload w) (Some 0) = Delivered \<longrightarrow>
      s \<in> set (subscriptions db')"
    unfolding eq by (simp add: reportsGone_def)
  from eq resp k sum keep show ?thesis by simp
qed

lemma ex_purge:
  "purge ex_world ex_db =
     (ex_db\<lparr>subscriptions := [sub_a, sub_c]\<rparr>, PurgeOk 1 2,
      [PushAttempt ''c'' ''{}'' (Some 0), PushAttempt ''a'' ''{}'' (Some 0),
       PushAttempt ''b'' ''{}'' (Some 0), Broadcast (WsSubscription 2)])"
  by (simp add: purge_def ex_subs Let_def purge_settled_def pushAttempts_def probePayload_def
        getSubCount_def) 
     (simp add: ex_world_def ex_db_def sub_a_def sub_b_def sub_c_def pushSub_def deleteSub_def
        purge_settled_def)

theorem purge_removes_only_gone_witness:
  "purge ex_world ex_db =
     (ex_db\<lparr>subscriptions := [sub_a, sub_c]\<rparr>, PurgeOk 1 2,
      [PushAttempt ''c'' ''{}'' (Some 0), PushAttempt ''a'' ''{}'' (Some 0),
       PushAttempt ''b'' ''{}'' (Some 0), Broadcast (WsSubscription 2)]) \<and>
   filter (\<lambda>s. \<not> reportsGone ex_world (probePayload ex_world) (Some 0) s) (subscriptions ex_db) =
     [sub_a, sub_c] \<and>
   length (filter (reportsGone ex_world (probePayload ex_world) (Some 0)) (subscriptions ex_db)) = 1 \<and>
   sendNotification ex_world (pushSub sub_a) (probePayload ex_world) (Some 0) = Delivered"
proof -
  have uniq: "distinct (map endpoint (subscriptions ex_db))"
    by (simp add: ex_db_def sub_a_def sub_b_def sub_c_def)
  have p: "mset (settleOrder ex_world (getAllSubs ex_db)) = mset (getAllSubs ex_db)"
    by (simp add: ex_world_def)
  have d: "sendNotification ex_world (pushSub sub_a) (probePayload ex_world) (Some 0) = Delivered"
    by (simp add: ex_world_def pushSub_def sub_a_def)
  note th = purge_removes_only_gone[OF uniq p ex_purge]
  from th have f1: "filter (\<lambda>s. \<not> reportsGone ex_world (probePayload ex_world) (Some 0) s)
      (subscriptions ex_db) = [sub_a, sub_c]"
    by simp
  from th have f2: "length (filter (reportsGone ex_world (probePayload ex_world) (Some 0))
      (subscriptions ex_db)) = 1"
    by simp
  from ex_purge f1 f2 d show ?thesis by blast
qed

section \<open>The subscription registry\<close>

lemma filter_other_length:
  "distinct (map f T) \<Longrightarrow> v \<in> set (map f T) \<Longrightarrow>
     length (filter (\<lambda>s. f s \<noteq> v) T) + 1 = length T"
proof (induction T)
  case Nil
  then show ?case by simp
next
  case (Cons x T)
  show ?case
  proof (cases "f x = v")
    case True
    with Cons.prems have "v \<notin> set (map f T)" by auto
    then have "filter (\<lambda>s. f s \<noteq> v) T = T" by (auto simp: filter_id_conv)
    with True show ?thesis by simp
  next
    case False
    with Cons show ?thesis by auto
  qed
qed

lemma deleteSub_absent:
  "e \<notin> set (map endpoint (subscriptions db)) \<Longrightarrow> deleteSub (Some e) db = db"
proof -
  assume "e \<notin> set (map endpoint (subscriptions db))"
  then have "filter (\<lambda>s. Some (endpoint s) \<noteq> Some e) (subscriptions db) = subscriptions db"
    by (auto simp: filter_id_conv)
  then show ?thesis by (simp add: deleteSub_def)
qed

lemma insertSub_rows:
  "insertSub now (Some e) (Some p) (Some a) db = Inr db' \<Longrightarrow>
     subscriptions db' = filter (\<lambda>s. endpoint s \<noteq> e) (subscriptions db) @
       [\<lparr>sub_id = sub_seq db + 1, endpoint = e, keys_p256dh = p, keys_auth = a, createdAt = now\<rparr>] \<and>
     sub_seq db' = sub_seq db + 1 \<and> messages db' = messages db \<and>
     webhooks db' = webhooks db \<and> wh_seq db' = wh_seq db"
  by (auto simp: insertSub_def)

lemma subscribe_valid:
  assumes "e \<noteq> []" and "p \<noteq> []" and "a \<noteq> []"
  shows "\<exists>db'. insertSub now (Some e) (Some p) (Some a) db = Inr db' \<and>
           subscribe now \<lparr>req_endpoint = Some e,
             req_keys = Some \<lparr>p256dh = Some p, auth = Some a\<rparr>\<rparr> db =
           (db', OkTrue, [Broadcast (WsSubscription (getSubCount db'))])"
  using assms by (simp add: subscribe_def truthyS_def insertSub_def Let_def)

text \<open>
  C7. Unregistering an endpoint that is not registered answers \<open>{ok: true}\<close> and leaves
  the database, hence the subscriber count, as it was. Subscribing an endpoint with key
  material answers \<open>{ok: true}\<close>; afterwards the registry still holds no endpoint twice,
  it holds exactly one row for this endpoint, with the new key material, the rows of the
  other endpoints are untouched, and when the endpoint was registered before the
  subscriber count has not changed.
\<close>

theorem registry_idempotent_upsert:
  assumes e: "e \<noteq> []"
  shows "(e \<notin> set (map endpoint (subscriptions db)) \<longrightarrow>
            unsubscribe (Some e) db = (db, OkTrue, [Broadcast (WsSubscription (getSubCount db))])) \<and>
         (p \<noteq> [] \<and> a \<noteq> [] \<and> distinct (map endpoint (subscriptions db)) \<longrightarrow>
            (\<exists>db'. subscribe now \<lparr>req_endpoint = Some e,
                     req_keys = Some \<lparr>p256dh = Some p, auth = Some a\<rparr>\<rparr> db =
                   (db', OkTrue, [Broadcast (WsSubscription (getSubCount db'))]) \<and>
                 distinct (map endpoint (subscriptions db')) \<and>
                 filter (\<lambda>s. endpoint s = e) (subscriptions db') =
                   [\<lparr>sub_id = sub_seq db + 1, endpoint = e, keys_p256dh = p, keys_auth = a,
                     createdAt = now\<rparr>] \<and>
                 filter (\<lambda>s. endpoint s \<noteq> e) (subscriptions db') =
                   filter (\<lambda>s. endpoint s \<noteq> e) (subscriptions db) \<and>
                 (e \<in> set (map endpoint (subscriptions db)) \<longrightarrow>
                    getSubCount db' = getSubCount db)))"
proof (intro conjI impI)
  assume "e \<notin> set (map endpoint (subscriptions db))"
  then show "unsubscribe (Some e) db = (db, OkTrue, [Broadcast (WsSubscription (getSubCount db))])"
    using e by (simp add: unsubscribe_def truthyS_def deleteSub_absent Let_def)
next
  assume pa: "p \<noteq> [] \<and> a \<noteq> [] \<and> distinct (map endpoint (subscriptions db))"
  then have uniq: "distinct (map endpoint (subscriptions db))" by simp
  from subscribe_valid[OF e, of p a now db] pa obtain db' where
    ins: "insertSub now (Some e) (Some p) (Some a) db = Inr db'" and
    sub: "subscribe now \<lparr>req_endpoint = Some e,
             req_keys = Some \<lparr>p256dh = Some p, auth = Some a\<rparr>\<rparr> db =
           (db', OkTrue, [Broadcast (WsSubscription (getSubCount db'))])"
    by blast
  let ?new = "\<lparr>sub_id = sub_seq db + 1, endpoint = e, keys_p256dh = p, keys_auth = a,
      createdAt = now\<rparr>"
  from insertSub_rows[OF ins] have rows:
    "subscriptions db' = filter (\<lambda>s. endpoint s \<noteq> e) (subscriptions db) @ [?new]"
    by simp
  have d: "distinct (map endpoint (subscriptions db'))"
    using uniq by (auto simp: rows distinct_map_filter)
  have one: "filter (\<lambda>s. endpoint s = e) (subscriptions db') = [?new]"
    by (simp add: rows)
  have rest: "filter (\<lambda>s. endpoint s \<noteq> e) (subscriptions db') =
      filter (\<lambda>s. endpoint s \<noteq> e) (subscriptions db)"
    by (simp add: rows)
  have cnt: "e \<in> set (map endpoint (subscriptions db)) \<longrightarrow> getSubCount db' = getSubCount db"
    using filter_other_length[OF uniq, of e] by (simp add: getSubCount_def rows)
  from sub d one rest cnt
  show "\<exists>db'. subscribe now \<lparr>req_endpoint = Some e,
                     req_keys = Some \<lparr>p256dh = Some p, auth = Some a\<rparr>\<rparr> db =
                   (db', OkTrue, [Broadcast (WsSubscription (getSubCount db'))]) \<and>
                 distinct (map endpoint (subscriptions db')) \<and>
                 filter (\<lambda>s. endpoint s = e) (subscriptions db') = [?new] \<and>
                 filter (\<lambda>s. endpoint s \<noteq> e) (subscriptions db') =
                   filter (\<lambda>s. endpoint s \<noteq> e) (subscriptions db) \<and>
                 (e \<in> set (map endpoint (subscriptions db)) \<longrightarrow>
                    getSubCount db' = getSubCount db)"
    by blast
qed

lemma ex_subscribe_a:
  "subscribe now \<lparr>req_endpoint = Some ''a'',
      req_keys = Some \<lparr>p256dh = Some ''q1'', auth = Some ''q2''\<rparr>\<rparr> ex_db =
     (ex_db\<lparr>subscriptions := [sub_b, sub_c,
         \<lparr>sub_id = 4, endpoint = ''a'', keys_p256dh = ''q1'', keys_auth = ''q2'',
           createdAt = now\<rparr>], sub_seq := 4\<rparr>,
      OkTrue, [Broadcast (WsSubscription 3)])"
  by (simp add: subscribe_def truthyS_def insertSub_def Let_def getSubCount_def ex_db_def
        sub_a_def sub_b_def sub_c_def)

theorem registry_idempotent_upsert_witness:
  "''z'' \<notin> set (map endpoint (subscriptions ex_db)) \<and>
   unsubscribe (Some ''z'') ex_db = (ex_db, OkTrue, [Broadcast (WsSubscription 3)]) \<and>
   ''a'' \<in> set (map endpoint (subscriptions ex_db)) \<and>
   distinct (map endpoint (subscriptions ex_db)) \<and>
   (\<exists>db'. subscribe 9 \<lparr>req_endpoint = Some ''a'',
            req_keys = Some \<lparr>p256dh = Some ''q1'', auth = Some ''q2''\<rparr>\<rparr> ex_db =
          (db', OkTrue, [Broadcast (WsSubscription 3)]) \<and>
        distinct (map endpoint (subscriptions db')) \<and>
        filter (\<lambda>s. endpoint s = ''a'') (subscriptions db') =
          [\<lparr>sub_id = 4, endpoint = ''a'', keys_p256dh = ''q1'', keys_auth = ''q2'',
            createdAt = 9\<rparr>] \<and>
        getSubCount db' = 3)"
proof -
  have z: "''z'' \<notin> set (map endpoint (subscriptions ex_db))"
    by (simp add: ex_db_def sub_a_def sub_b_def sub_c_def)
  have a: "''a'' \<in> set (map endpoint (subscriptions ex_db))"
    by (simp add: ex_db_def sub_a_def sub_b_def sub_c_def)
  have uniq: "distinct (map endpoint (subscriptions ex_db))"
    by (simp add: ex_db_def sub_a_def sub_b_def sub_c_def)
  have c: "getSubCount ex_db = 3" "sub_seq ex_db = 3"
    by (simp_all add: getSubCount_def ex_db_def)
  have "unsubscribe (Some ''z'') ex_db = (ex_db, OkTrue, [Broadcast (WsSubscription 3)])"
    using registry_idempotent_upsert[where e="''z''" and db=ex_db] z c by simp
  moreover have "\<exists>db'. subscribe 9 \<lparr>req_endpoint = Some ''a'',
            req_keys = Some \<lparr>p256dh = Some ''q1'', auth = Some ''q2''\<rparr>\<rparr> ex_db =
          (db', OkTrue, [Broadcast (WsSubscription 3)]) \<and>
        distinct (map endpoint (subscriptions db')) \<and>
        filter (\<lambda>s. endpoint s = ''a'') (subscriptions db') =
          [\<lparr>sub_id = 4, endpoint = ''a'', keys_p256dh = ''q1'', keys_auth = ''q2'',
            createdAt = 9\<rparr>] \<and>
        getSubCount db' = 3"
    using registry_idempotent_upsert[where e="''a''" and p="''q1''" and a="''q2''" and db=ex_db
        and now=9] a uniq c by auto
  ultimately show ?thesis using z a uniq by blast
qed

lemma sort_key_snoc_least:
  fixes f :: "'a \<Rightarrow> int"
  assumes "\<forall>x \<in> set xs. f r < f x"
  shows "sort_key f (xs @ [r]) = r # sort_key f xs"
  using assms
proof (induction xs)
  case Nil
  show ?case by simp
next
  case (Cons x xs)
  then have "sort_key f (xs @ [r]) = r # sort_key f xs" and "\<not> f x \<le> f r"
    by auto
  then show ?case by simp
qed

lemma wf_db_ids: "wf_db db \<Longrightarrow> s \<in> set (subscriptions db) \<Longrightarrow> sub_id s \<le> sub_seq db"
  by (simp add: wf_db_def list_all_iff)

text \<open>
  C10, as amended. Re-subscribing a registered endpoint is a delete and an insert: the
  old row is gone, the one row of the endpoint has a new id (the next AUTOINCREMENT
  value) and \<open>createdAt\<close> set to the current time. It heads the newest-first listing,
  followed by the other rows in their former order, when the current time is later than
  the \<open>createdAt\<close> of every other subscription.
\<close>

theorem resubscribe_replaces_row:
  assumes wf: "wf_db db"
    and old: "s \<in> set (subscriptions db)" "endpoint s = e"
    and valid: "e \<noteq> []" "p \<noteq> []" "a \<noteq> []"
  shows "\<exists>db' new.
           subscribe now \<lparr>req_endpoint = Some e,
               req_keys = Some \<lparr>p256dh = Some p, auth = Some a\<rparr>\<rparr> db =
             (db', OkTrue, [Broadcast (WsSubscription (getSubCount db'))]) \<and>
           new = \<lparr>sub_id = sub_seq db + 1, endpoint = e, keys_p256dh = p, keys_auth = a,
                   createdAt = now\<rparr> \<and>
           filter (\<lambda>t. endpoint t = e) (subscriptions db') = [new] \<and>
           s \<notin> set (subscriptions db') \<and>
           sub_id new \<noteq> sub_id s \<and>
           createdAt new = now \<and>
           ((\<forall>t \<in> set (subscriptions db). endpoint t \<noteq> e \<longrightarrow> createdAt t < now) \<longrightarrow>
              getAllSubs db' = new # filter (\<lambda>t. endpoint t \<noteq> e) (getAllSubs db))"
proof -
  let ?new = "\<lparr>sub_id = sub_seq db + 1, endpoint = e, keys_p256dh = p, keys_auth = a,
      createdAt = now\<rparr>"
  let ?f = "\<lambda>t. - int (createdAt t)"
  let ?rest = "filter (\<lambda>t. endpoint t \<noteq> e) (subscriptions db)"
  from subscribe_valid[OF valid, of now db] obtain db' where
    ins: "insertSub now (Some e) (Some p) (Some a) db = Inr db'" and
    sub: "subscribe now \<lparr>req_endpoint = Some e,
             req_keys = Some \<lparr>p256dh = Some p, auth = Some a\<rparr>\<rparr> db =
           (db', OkTrue, [Broadcast (WsSubscription (getSubCount db'))])"
    by blast
  from insertSub_rows[OF ins] have rows: "subscriptions db' = ?rest @ [?new]"
    by simp
  have one: "filter (\<lambda>t. endpoint t = e) (subscriptions db') = [?new]"
    by (simp add: rows)
  have id: "sub_id ?new \<noteq> sub_id s"
    using wf_db_ids[OF wf old(1)] by simp
  then have "s \<noteq> ?new" by auto
  with old(2) have gone: "s \<notin> set (subscriptions db')"
    by (simp add: rows)
  have front: "(\<forall>t \<in> set (subscriptions db). endpoint t \<noteq> e \<longrightarrow> createdAt t < now) \<longrightarrow>
      getAllSubs db' = ?new # filter (\<lambda>t. endpoint t \<noteq> e) (getAllSubs db)"
  proof
    assume "\<forall>t \<in> set (subscriptions db). endpoint t \<noteq> e \<longrightarrow> createdAt t < now"
    then have "\<forall>t \<in> set ?rest. ?f ?new < ?f t" by simp
    then have "sort_key ?f (?rest @ [?new]) = ?new # sort_key ?f ?rest"
      by (rule sort_key_snoc_least)
    then show "getAllSubs db' = ?new # filter (\<lambda>t. endpoint t \<noteq> e) (getAllSubs db)"
      by (simp add: getAllSubs_def rows filter_sort)
  qed
  from sub one gone id front show ?thesis by simp
qed

text \<open>
  C10 as stated fails when another subscription was created within the same second:
  re-subscribing \<open>a\<close> at second 7, the \<open>createdAt\<close> of \<open>c\<close>, leaves \<open>a\<close> behind \<open>c\<close> in
  the listing (rows with equal \<open>createdAt\<close> are listed in rowid order, and the new row has
  the largest rowid).
\<close>

theorem resubscribe_not_front_counterexample:
  "wf_db ex_db \<and> sub_a \<in> set (subscriptions ex_db) \<and> endpoint sub_a = ''a'' \<and>
   fst (snd (subscribe 7 \<lparr>req_endpoint = Some ''a'',
      req_keys = Some \<lparr>p256dh = Some ''q1'', auth = Some ''q2''\<rparr>\<rparr> ex_db)) = OkTrue \<and>
   map endpoint (getAllSubs (fst (subscribe 7 \<lparr>req_endpoint = Some ''a'',
      req_keys = Some \<lparr>p256dh = Some ''q1'', auth = Some ''q2''\<rparr>\<rparr> ex_db))) =
     [''c'', ''a'', ''b''] \<and>
   map endpoint (getAllSubs ex_db) = [''c'', ''a'', ''b'']"
  by (simp add: ex_subscribe_a ex_subs)
     (simp add: getAllSubs_def wf_db_def ex_db_def sub_a_def sub_b_def sub_c_def)

theorem resubscribe_replaces_row_witness:
  "wf_db ex_db \<and> sub_a \<in> set (subscriptions ex_db) \<and> endpoint sub_a = ''a'' \<and>
   sub_id sub_a = 1 \<and> createdAt sub_a = 5 \<and>
   getAllSubs ex_db = [sub_c, sub_a, sub_b] \<and>
   (\<exists>db'. subscribe 9 \<lparr>req_endpoint = Some ''a'',
            req_keys = Some \<lparr>p256dh = Some ''q1'', auth = Some ''q2''\<rparr>\<rparr> ex_db =
          (db', OkTrue, [Broadcast (WsSubscription (getSubCount db'))]) \<and>
        sub_a \<notin> set (subscriptions db') \<and>
        getAllSubs db' =
          [\<lparr>sub_id = 4, endpoint = ''a'', keys_p256dh = ''q1'', keys_auth = ''q2'',
             createdAt = 9\<rparr>, sub_c, sub_b])"
proof -
  have wf: "wf_db ex_db"
    by (simp add: wf_db_def ex_db_def sub_a_def sub_b_def sub_c_def)
  have a: "sub_a \<in> set (subscriptions ex_db)" "endpoint sub_a = ''a''"
    "sub_id sub_a = 1" "createdAt sub_a = 5"
    by (simp_all add: ex_db_def sub_a_def)
  have later: "\<forall>t \<in> set (subscriptions ex_db). endpoint t \<noteq> ''a'' \<longrightarrow> createdAt t < 9"
    by (simp add: ex_db_def sub_a_def sub_b_def sub_c_def)
  have rest: "endpoint sub_b = ''b''" "endpoint sub_c = ''c''"
    by (simp_all add: sub_b_def sub_c_def)
  have seq: "sub_seq ex_db = 3"
    by (simp add: ex_db_def)
  from resubscribe_replaces_row[OF wf a(1) a(2), where p="''q1''" and a="''q2''" and now=9]
  obtain db' where
    "subscribe 9 \<lparr>req_endpoint = Some ''a'',
            req_keys = Some \<lparr>p256dh = Some ''q1'', auth = Some ''q2''\<rparr>\<rparr> ex_db =
          (db', OkTrue, [Broadcast (WsSubscription (getSubCount db'))])"
    and "sub_a \<notin> set (subscriptions db')"
    and "getAllSubs db' =
          [\<lparr>sub_id = 4, endpoint = ''a'', keys_p256dh = ''q1'', keys_auth = ''q2'',
             createdAt = 9\<rparr>, sub_c, sub_b]"
    using later by (auto simp: ex_subs rest a seq)
  with wf a ex_subs show ?thesis by blast
qed

section \<open>Validation\<close>

lemma truthyS_missing: "truthyS v = (\<not> missing v)"
  by (cases v) (auto simp: truthyS_def missing_def)

lemma truthyJ_missingJ: "truthyJ v = (\<not> missingJ v)"
proof (cases v)
  case None
  then show ?thesis by (simp add: truthyJ_def missingJ_def)
next
  case (Some j)
  then show ?thesis by (cases j) (auto simp: truthyJ_def missingJ_def)
qed

text \<open>
  C5. A request that fails validation (a notify without title or body, a respond with
  neither text nor data, a subscribe without endpoint or without a key; likewise an
  unsubscribe without endpoint and a webhook call without url) is answered with status
  400, the database after it is the database before it, so no row of any table is
  inserted, replaced or deleted, and it has no outward effect.
\<close>

theorem invalid_request_rejected:
  assumes "failsValidation rq"
  shows "\<exists>msg. handle w now uuid rq db = (db, BadRequest msg, [])"
proof (cases rq)
  case (PostSubscribe req)
  with assms show ?thesis
    by (cases "req_keys req")
       (auto simp: subscribe_def Let_def truthyS_missing missing_def)
next
  case (DeleteSubscribe e)
  with assms show ?thesis by (simp add: unsubscribe_def truthyS_missing)
next
  case (PostNotify req)
  with assms show ?thesis by (auto simp: notify_def truthyS_missing)
next
  case (PostRespond req)
  with assms show ?thesis by (simp add: respond_def truthyS_missing truthyJ_missingJ)
next
  case PostPurge
  with assms show ?thesis by simp
next
  case (PostWebhooks req)
  with assms show ?thesis by (simp add: addWebhook_def truthyS_missing)
next
  case (DeleteWebhooks u)
  with assms show ?thesis by (simp add: removeWebhook_def truthyS_missing)
next
  case (WsMessage raw)
  with assms show ?thesis by simp
qed

theorem invalid_request_rejected_witness:
  "failsValidation (PostNotify \<lparr>req_title = Some [], req_body = Some ''Ready'', req_url = None,
      req_tag = None, req_ui = None\<rparr>) \<and>
   handle ex_world 11 ''u1'' (PostNotify \<lparr>req_title = Some [], req_body = Some ''Ready'',
      req_url = None, req_tag = None, req_ui = None\<rparr>) ex_log =
     (ex_log, BadRequest ''title and body required'', []) \<and>
   failsValidation (PostRespond \<lparr>req_messageId = Some ''n1'', req_text = None,
      req_data = Some JNull\<rparr>) \<and>
   handle ex_world 11 ''u1'' (PostRespond \<lparr>req_messageId = Some ''n1'', req_text = None,
      req_data = Some JNull\<rparr>) ex_log =
     (ex_log, BadRequest ''text or data required'', []) \<and>
   failsValidation (PostSubscribe \<lparr>req_endpoint = Some ''d'',
      req_keys = Some \<lparr>p256dh = Some ''p'', auth = None\<rparr>\<rparr>) \<and>
   handle ex_world 11 ''u1'' (PostSubscribe \<lparr>req_endpoint = Some ''d'',
      req_keys = Some \<lparr>p256dh = Some ''p'', auth = None\<rparr>\<rparr>) ex_log =
     (ex_log, BadRequest ''Invalid subscription'', [])"
proof -
  let ?n = "PostNotify \<lparr>req_title = Some [], req_body = Some ''Ready'', req_url = None,
      req_tag = None, req_ui = None\<rparr>"
  let ?r = "PostRespond \<lparr>req_messageId = Some ''n1'', req_text = None, req_data = Some JNull\<rparr>"
  let ?s = "PostSubscribe \<lparr>req_endpoint = Some ''d'',
      req_keys = Some \<lparr>p256dh = Some ''p'', auth = None\<rparr>\<rparr>"
  have fn: "failsValidation ?n" by (simp add: missing_def)
  have fr: "failsValidation ?r" by (simp add: missing_def missingJ_def)
  have fs: "failsValidation ?s" by (simp add: missing_def)
  from invalid_request_rejected[OF fn, of ex_world 11 "''u1''" ex_log]
  have n: "handle ex_world 11 ''u1'' ?n ex_log = (ex_log, BadRequest ''title and body required'', [])"
    by (auto simp: notify_def truthyS_def)
  from invalid_request_rejected[OF fr, of ex_world 11 "''u1''" ex_log]
  have r: "handle ex_world 11 ''u1'' ?r ex_log = (ex_log, BadRequest ''text or data required'', [])"
    by (auto simp: respond_def truthyS_def truthyJ_def)
  from invalid_request_rejected[OF fs, of ex_world 11 "''u1''" ex_log]
  have s: "handle ex_world 11 ''u1'' ?s ex_log = (ex_log, BadRequest ''Invalid subscription'', [])"
    by (auto simp: subscribe_def truthyS_def Let_def)
  from fn fr fs n r s show ?thesis by blast
qed

section \<open>The message log\<close>

lemma sendToAll_frame:
  "sendToAll w subs payload db = (db', r) \<Longrightarrow>
     messages db' = messages db \<and> webhooks db' = webhooks db \<and>
     sub_seq db' = sub_seq db \<and> wh_seq db' = wh_seq db"
  by (auto simp: sendToAll_def sendToAll_fold)

lemma purge_frame:
  "purge w db = (db', resp, eff) \<Longrightarrow>
     messages db' = messages db \<and> webhooks db' = webhooks db \<and>
     sub_seq db' = sub_seq db \<and> wh_seq db' = wh_seq db"
  by (auto simp: purge_def Let_def purge_fold)

lemma insertMessage_rows:
  "insertMessage now i t b ty par u d db = Inr db' \<Longrightarrow>
     \<exists>t' b'. t = Some t' \<and> b = Some b' \<and>
       i \<notin> set (map msg_id (messages db)) \<and>
       messages db' = messages db @
         [\<lparr>msg_id = i, title = t', body = b', sentAt = now, mtype = ty, parentId = par,
           ui = u, data = d\<rparr>] \<and>
       subscriptions db' = subscriptions db \<and> sub_seq db' = sub_seq db \<and>
       webhooks db' = webhooks db \<and> wh_seq db' = wh_seq db"
  by (auto simp: insertMessage_def split: option.splits if_splits)

text \<open>Every operation leaves the message log as it was or appends one row to it.\<close>

lemma handle_messages:
  assumes "handle w now uuid rq db = (db', resp, eff)"
  shows "messages db' = messages db \<or>
         (\<exists>m. messages db' = messages db @ [m] \<and> msg_id m = uuid \<and> sentAt m = now \<and> goodRow m)"
proof (cases rq)
  case (PostSubscribe req)
  with assms show ?thesis
    by (auto simp: subscribe_def Let_def insertSub_def split: if_splits sum.splits option.splits)
next
  case (DeleteSubscribe e)
  with assms show ?thesis
    by (auto simp: unsubscribe_def Let_def deleteSub_def split: if_splits)
next
  case (PostNotify req)
  with assms show ?thesis
    by (auto simp: notify_def Let_def goodRow_def split: if_splits sum.splits prod.splits
          dest!: insertMessage_rows sendToAll_frame)
next
  case (PostRespond req)
  with assms show ?thesis
    by (auto simp: respond_def Let_def goodRow_def split: if_splits sum.splits
          dest!: insertMessage_rows)
next
  case PostPurge
  with assms show ?thesis by (auto dest: purge_frame)
next
  case (PostWebhooks req)
  with assms show ?thesis
    by (auto simp: addWebhook_def insertWebhook_def split: if_splits sum.splits option.splits)
next
  case (DeleteWebhooks u)
  with assms show ?thesis
    by (auto simp: removeWebhook_def deleteWebhook_def split: if_splits)
next
  case (WsMessage raw)
  with assms show ?thesis
    by (auto simp: wsMessage_def Let_def goodRow_def
          split: if_splits sum.splits prod.splits ws_input.splits
          dest!: insertMessage_rows sendToAll_frame)
qed

text \<open>
  C9. Every operation of the server, on either channel, preserves the message-kind
  invariant: if every stored notification has \<open>data = NULL\<close> and every stored response has
  the title \<open>Response\<close> before the operation, the same holds after it.
\<close>

theorem kind_invariant_preserved:
  assumes inv: "kindInvariant db"
    and step: "handle w now uuid rq db = (db', resp, eff)"
  shows "kindInvariant db'"
proof -
  from handle_messages[OF step] show ?thesis
  proof
    assume "messages db' = messages db"
    with inv show ?thesis by (simp add: kindInvariant_def)
  next
    assume "\<exists>m. messages db' = messages db @ [m] \<and> msg_id m = uuid \<and> sentAt m = now \<and> goodRow m"
    with inv show ?thesis by (auto simp: kindInvariant_def goodRow_def)
  qed
qed

lemma ex_respond:
  "respond ex_world 11 ''r1'' \<lparr>req_messageId = None, req_text = Some ''approved'',
      req_data = None\<rparr> ex_log =
     (ex_log\<lparr>messages := [msg_n1, msg_n2,
         \<lparr>msg_id = ''r1'', title = ''Response'', body = ''approved'', sentAt = 11,
           mtype = Response, parentId = Some ''n1'', ui = None, data = None\<rparr>]\<rparr>,
      RespondOk ''r1'',
      [InsertedMessage ''r1'',
       Broadcast (WsResponse ''r1'' (Some ''n1'') (Some ''approved'') None),
       WebhookPost ''http://all'' (ResponseEvent ''r1'' (Some ''n1'') (Some ''approved'') None),
       WebhookPost ''http://list'' (ResponseEvent ''r1'' (Some ''n1'') (Some ''approved'') None)])"
  by (simp add: respond_def truthyS_def truthyJ_def Let_def latestNotification_def
        stringifyOrNull_def insertMessage_def fireWebhooks_def getAllWebhooks_def hookMatches_def
        ex_log_def msg_n1_def msg_n2_def hook_n_def hook_all_def hook_list_def)

theorem kind_invariant_preserved_witness:
  "kindInvariant ex_log \<and>
   handle ex_world 11 ''r1'' (PostRespond \<lparr>req_messageId = None, req_text = Some ''approved'',
      req_data = None\<rparr>) ex_log =
     (ex_log\<lparr>messages := [msg_n1, msg_n2,
         \<lparr>msg_id = ''r1'', title = ''Response'', body = ''approved'', sentAt = 11,
           mtype = Response, parentId = Some ''n1'', ui = None, data = None\<rparr>]\<rparr>,
      RespondOk ''r1'',
      [InsertedMessage ''r1'',
       Broadcast (WsResponse ''r1'' (Some ''n1'') (Some ''approved'') None),
       WebhookPost ''http://all'' (ResponseEvent ''r1'' (Some ''n1'') (Some ''approved'') None),
       WebhookPost ''http://list'' (ResponseEvent ''r1'' (Some ''n1'') (Some ''approved'') None)]) \<and>
   kindInvariant (ex_log\<lparr>messages := [msg_n1, msg_n2,
         \<lparr>msg_id = ''r1'', title = ''Response'', body = ''approved'', sentAt = 11,
           mtype = Response, parentId = Some ''n1'', ui = None, data = None\<rparr>]\<rparr>)"
proof -
  have inv: "kindInvariant ex_log"
    by (simp add: kindInvariant_def goodRow_def ex_log_def msg_n1_def msg_n2_def)
  have step: "handle ex_world 11 ''r1'' (PostRespond \<lparr>req_messageId = None,
      req_text = Some ''approved'', req_data = None\<rparr>) ex_log =
     (ex_log\<lparr>messages := [msg_n1, msg_n2,
         \<lparr>msg_id = ''r1'', title = ''Response'', body = ''approved'', sentAt = 11,
           mtype = Response, parentId = Some ''n1'', ui = None, data = None\<rparr>]\<rparr>,
      RespondOk ''r1'',
      [InsertedMessage ''r1'',
       Broadcast (WsResponse ''r1'' (Some ''n1'') (Some ''approved'') None),
       WebhookPost ''http://all'' (ResponseEvent ''r1'' (Some ''n1'') (Some ''approved'') None),
       WebhookPost ''http://list'' (ResponseEvent ''r1'' (Some ''n1'') (Some ''approved'') None)])"
    by (simp add: ex_respond)
  from kind_invariant_preserved[OF inv step] inv step show ?thesis by blast
qed

section \<open>The notify operation\<close>

lemma insertMessage_fresh:
  assumes "i \<notin> set (map msg_id (messages db))"
  shows "insertMessage now i (Some t) (Some b) ty None u d db =
           Inr (db\<lparr>messages := messages db @
                  [\<lparr>msg_id = i, title = t, body = b, sentAt = now, mtype = ty,
                    parentId = None, ui = u, data = d\<rparr>]\<rparr>)"
  using assms by (simp add: insertMessage_def)

lemma notify_persisted:
  assumes valid: "truthyS (req_title req)" "truthyS (req_body req)"
    and ins: "insertMessage now uuid (req_title req) (req_body req) Notification None
                (stringifyOrNull w (req_ui req)) None db = Inr db1"
    and run: "sendToAll w (getAllSubs db1) (notifyPayload w req uuid) db1 = (db', res)"
  shows "notify w now uuid req db =
           (db', NotifyOk uuid res,
            InsertedMessage uuid #
            pushAttempts (getAllSubs db1) (notifyPayload w req uuid) None @
            Broadcast (WsNotification uuid (req_title req) (req_body req)
              (if truthyJ (req_ui req) then req_ui req else None)) #
            fireWebhooks ''notification''
              (NotificationEvent uuid (req_title req) (req_body req)) db')"
  using valid ins run by (simp add: notify_def Let_def)

text \<open>
  C1. A notify request whose title and body are non-empty strings, handled with a fresh
  identifier: the row \<open>m\<close> with that identifier, the title and the body, kind
  \<open>notification\<close>, \<open>parentId = NULL\<close> and \<open>data = NULL\<close> is appended to the log first; the
  push dispatch starts from the database \<open>db1\<close> that holds the row, and its attempts
  follow the insertion in the sequence of effects; the response is \<open>{messageId, results}\<close>
  with the identifier of the row, which is still in the log when the handler returns and
  is the only row with that identifier.
\<close>

theorem notify_persists_before_dispatch:
  assumes t: "req_title req = Some t" "t \<noteq> []"
    and b: "req_body req = Some b" "b \<noteq> []"
    and fresh: "uuid \<notin> set (map msg_id (messages db))"
  shows "\<exists>m db1 db' res.
           m = \<lparr>msg_id = uuid, title = t, body = b, sentAt = now, mtype = Notification,
                 parentId = None, ui = stringifyOrNull w (req_ui req), data = None\<rparr> \<and>
           db1 = db\<lparr>messages := messages db @ [m]\<rparr> \<and>
           sendToAll w (getAllSubs db1) (notifyPayload w req uuid) db1 = (db', res) \<and>
           notify w now uuid req db =
             (db', NotifyOk uuid res,
              InsertedMessage uuid #
              pushAttempts (getAllSubs db1) (notifyPayload w req uuid) None @
              Broadcast (WsNotification uuid (req_title req) (req_body req)
                (if truthyJ (req_ui req) then req_ui req else None)) #
              fireWebhooks ''notification''
                (NotificationEvent uuid (req_title req) (req_body req)) db') \<and>
           messages db' = messages db @ [m] \<and>
           filter (\<lambda>x. msg_id x = uuid) (messages db') = [m]"
proof -
  let ?m = "\<lparr>msg_id = uuid, title = t, body = b, sentAt = now, mtype = Notification,
      parentId = None, ui = stringifyOrNull w (req_ui req), data = None\<rparr>"
  let ?db1 = "db\<lparr>messages := messages db @ [?m]\<rparr>"
  obtain db' res where
    run: "sendToAll w (getAllSubs ?db1) (notifyPayload w req uuid) ?db1 = (db', res)"
    by (cases "sendToAll w (getAllSubs ?db1) (notifyPayload w req uuid) ?db1") blast
  have valid: "truthyS (req_title req)" "truthyS (req_body req)"
    using t b by (simp_all add: truthyS_def)
  have ins: "insertMessage now uuid (req_title req) (req_body req) Notification None
      (stringifyOrNull w (req_ui req)) None db = Inr ?db1"
    using t b by (simp add: insertMessage_fresh[OF fresh])
  note ret = notify_persisted[OF valid ins run]
  from sendToAll_frame[OF run] have log: "messages db' = messages db @ [?m]"
    by simp
  from fresh have "filter (\<lambda>x. msg_id x = uuid) (messages db) = []"
    by (auto simp: filter_empty_conv)
  with log have one: "filter (\<lambda>x. msg_id x = uuid) (messages db') = [?m]"
    by simp
  from run ret log one show ?thesis by blast
qed

text \<open>
  C3. Whatever the push service answers to each push and in whatever order the pushes
  settle, \<^verbatim>\<open>sendToAll\<close> returns a summary, and a notify request whose message row was
  persisted is answered with \<open>{messageId, results}\<close>. Every subscription gets its attempt,
  the number of successes is the number of subscriptions whose own push was delivered
  (so a failure for one endpoint takes nothing from the others), every attempt is counted
  as sent or as failed, and the log is not touched by the dispatch.
\<close>

theorem notify_survives_push_failures:
  assumes valid: "truthyS (req_title req)" "truthyS (req_body req)"
    and persisted: "insertMessage now uuid (req_title req) (req_body req) Notification None
                      (stringifyOrNull w (req_ui req)) None db = Inr db1"
    and perm: "mset (settleOrder w (getAllSubs db1)) = mset (getAllSubs db1)"
  shows "\<exists>db' res eff.
           notify w now uuid req db = (db', NotifyOk uuid res, eff) \<and>
           sent res = length (filter (\<lambda>s. sendNotification w (pushSub s)
                         (notifyPayload w req uuid) None = Delivered) (getAllSubs db1)) \<and>
           sent res + failed res = length (getAllSubs db1) \<and>
           (\<forall>s \<in> set (getAllSubs db1).
              PushAttempt (endpoint s) (notifyPayload w req uuid) None \<in> set eff) \<and>
           messages db' = messages db1"
proof -
  let ?subs = "getAllSubs db1"
  let ?p = "notifyPayload w req uuid"
  let ?ord = "settleOrder w ?subs"
  obtain db' res where run: "sendToAll w ?subs ?p db1 = (db', res)"
    by (cases "sendToAll w ?subs ?p db1") blast
  note ret = notify_persisted[OF valid persisted run]
  from run have s: "sent res = length (filter (\<lambda>x. \<not> pushFails w ?p None x) ?ord)"
    and f: "failed res = length (filter (pushFails w ?p None) ?ord)"
    by (auto simp: sendToAll_def sendToAll_fold)
  have s': "sent res = length (filter (\<lambda>s. sendNotification w (pushSub s) ?p None = Delivered) ?subs)"
    using s by (simp add: perm_filter_length[OF perm] pushFails_def)
  have "length (filter (pushFails w ?p None) ?ord) +
        length (filter (\<lambda>x. \<not> pushFails w ?p None x) ?ord) = length ?ord"
    by (rule sum_length_filter_compl)
  moreover have "length ?ord = length ?subs"
    using perm by (rule mset_eq_length)
  ultimately have tot: "sent res + failed res = length ?subs"
    using s f by simp
  have att: "\<forall>s \<in> set ?subs. PushAttempt (endpoint s) ?p None \<in> set
      (InsertedMessage uuid # pushAttempts ?subs ?p None @
       Broadcast (WsNotification uuid (req_title req) (req_body req)
         (if truthyJ (req_ui req) then req_ui req else None)) #
       fireWebhooks ''notification'' (NotificationEvent uuid (req_title req) (req_body req)) db')"
    by (auto simp: pushAttempts_def)
  from sendToAll_frame[OF run] have log: "messages db' = messages db1" by simp
  from ret s' tot att log show ?thesis by blast
qed

lemma ex_log_subs: "getAllSubs (ex_log\<lparr>messages := ms\<rparr>) = [sub_c, sub_a, sub_b]"
  by (simp add: getAllSubs_def ex_log_def sub_a_def sub_b_def sub_c_def)

lemma ex_log_run:
  "sendToAll ex_world [sub_c, sub_a, sub_b] ''{}'' (ex_log\<lparr>messages := ms\<rparr>) =
     (ex_log\<lparr>messages := ms, subscriptions := [sub_a, sub_c]\<rparr>,
      \<lparr>sent = 1, failed = 2, removed = 1, errors =
        [\<lparr>status = Some 410, err_body = Some ''gone'', err_endpoint = ''b...''\<rparr>,
         \<lparr>status = Some 500, err_body = None, err_endpoint = ''c...''\<rparr>]\<rparr>)"
  by (simp add: ex_log_def sendToAll_def ex_world_def sendToAll_settled_def pushSub_def
        deleteSub_def sub_a_def sub_b_def sub_c_def)

lemma ex_insert:
  "insertMessage 12 ''m3'' (req_title ex_req) (req_body ex_req) Notification None
     (stringifyOrNull ex_world (req_ui ex_req)) None ex_log =
   Inr (ex_log\<lparr>messages := [msg_n1, msg_n2,
     \<lparr>msg_id = ''m3'', title = ''Deploy'', body = ''Ready'', sentAt = 12, mtype = Notification,
       parentId = None, ui = None, data = None\<rparr>]\<rparr>)"
  by (simp add: insertMessage_def ex_req_def stringifyOrNull_def ex_log_def msg_n1_def msg_n2_def)

lemma ex_notify:
  "notify ex_world 12 ''m3'' ex_req ex_log =
     (ex_log\<lparr>messages := [msg_n1, msg_n2,
         \<lparr>msg_id = ''m3'', title = ''Deploy'', body = ''Ready'', sentAt = 12,
           mtype = Notification, parentId = None, ui = None, data = None\<rparr>],
        subscriptions := [sub_a, sub_c]\<rparr>,
      NotifyOk ''m3''
        \<lparr>sent = 1, failed = 2, removed = 1, errors =
          [\<lparr>status = Some 410, err_body = Some ''gone'', err_endpoint = ''b...''\<rparr>,
           \<lparr>status = Some 500, err_body = None, err_endpoint = ''c...''\<rparr>]\<rparr>,
      [InsertedMessage ''m3'',
       PushAttempt ''c'' ''{}'' None, PushAttempt ''a'' ''{}'' None, PushAttempt ''b'' ''{}'' None,
       Broadcast (WsNotification ''m3'' (Some ''Deploy'') (Some ''Ready'') None),
       WebhookPost ''http://n'' (NotificationEvent ''m3'' (Some ''Deploy'') (Some ''Ready'')),
       WebhookPost ''http://all'' (NotificationEvent ''m3'' (Some ''Deploy'') (Some ''Ready'')),
       WebhookPost ''http://list'' (NotificationEvent ''m3'' (Some ''Deploy'') (Some ''Ready''))])"
proof -
  have p: "notifyPayload ex_world ex_req ''m3'' = ''{}''"
    by (simp add: notifyPayload_def ex_world_def)
  have v: "truthyS (req_title ex_req)" "truthyS (req_body ex_req)"
    by (simp_all add: truthyS_def ex_req_def)
  have run: "sendToAll ex_world
      (getAllSubs (ex_log\<lparr>messages := [msg_n1, msg_n2,
         \<lparr>msg_id = ''m3'', title = ''Deploy'', body = ''Ready'', sentAt = 12,
           mtype = Notification, parentId = None, ui = None, data = None\<rparr>]\<rparr>))
      (notifyPayload ex_world ex_req ''m3'')
      (ex_log\<lparr>messages := [msg_n1, msg_n2,
         \<lparr>msg_id = ''m3'', title = ''Deploy'', body = ''Ready'', sentAt = 12,
           mtype = Notification, parentId = None, ui = None, data = None\<rparr>]\<rparr>) =
     (ex_log\<lparr>messages := [msg_n1, msg_n2,
         \<lparr>msg_id = ''m3'', title = ''Deploy'', body = ''Ready'', sentAt = 12,
           mtype = Notification, parentId = None, ui = None, data = None\<rparr>],
        subscriptions := [sub_a, sub_c]\<rparr>,
      \<lparr>sent = 1, failed = 2, removed = 1, errors =
          [\<lparr>status = Some 410, err_body = Some ''gone'', err_endpoint = ''b...''\<rparr>,
           \<lparr>status = Some 500, err_body = None, err_endpoint = ''c...''\<rparr>]\<rparr>)"
    by (simp only: p ex_log_subs ex_log_run)
  have hooks: "fireWebhooks ''notification'' pl (ex_log\<lparr>messages := ms, subscriptions := ss\<rparr>) =
      [WebhookPost ''http://n'' pl, WebhookPost ''http://all'' pl, WebhookPost ''http://list'' pl]"
    for pl ms ss
    by (simp add: fireWebhooks_def getAllWebhooks_def hookMatches_def ex_log_def
          hook_n_def hook_all_def hook_list_def)
  have att: "pushAttempts [sub_c, sub_a, sub_b] ''{}'' None =
      [PushAttempt ''c'' ''{}'' None, PushAttempt ''a'' ''{}'' None, PushAttempt ''b'' ''{}'' None]"
    by (simp add: pushAttempts_def sub_a_def sub_b_def sub_c_def)
  have u: "truthyJ (req_ui ex_req) = False" "req_title ex_req = Some ''Deploy''"
    "req_body ex_req = Some ''Ready''"
    by (simp_all add: truthyJ_def ex_req_def)
  show ?thesis
    unfolding notify_persisted[OF v ex_insert run]
    by (simp add: hooks p ex_log_subs att u)
qed

theorem notify_persists_before_dispatch_witness:
  "req_title ex_req = Some ''Deploy'' \<and> req_body ex_req = Some ''Ready'' \<and>
   ''m3'' \<notin> set (map msg_id (messages ex_log)) \<and>
   notify ex_world 12 ''m3'' ex_req ex_log =
     (ex_log\<lparr>messages := [msg_n1, msg_n2,
         \<lparr>msg_id = ''m3'', title = ''Deploy'', body = ''Ready'', sentAt = 12,
           mtype = Notification, parentId = None, ui = None, data = None\<rparr>],
        subscriptions := [sub_a, sub_c]\<rparr>,
      NotifyOk ''m3''
        \<lparr>sent = 1, failed = 2, removed = 1, errors =
          [\<lparr>status = Some 410, err_body = Some ''gone'', err_endpoint = ''b...''\<rparr>,
           \<lparr>status = Some 500, err_body = None, err_endpoint = ''c...''\<rparr>]\<rparr>,
      [InsertedMessage ''m3'',
       PushAttempt ''c'' ''{}'' None, PushAttempt ''a'' ''{}'' None, PushAttempt ''b'' ''{}'' None,
       Broadcast (WsNotification ''m3'' (Some ''Deploy'') (Some ''Ready'') None),
       WebhookPost ''http://n'' (NotificationEvent ''m3'' (Some ''Deploy'') (Some ''Ready'')),
       WebhookPost ''http://all'' (NotificationEvent ''m3'' (Some ''Deploy'') (Some ''Ready'')),
       WebhookPost ''http://list'' (NotificationEvent ''m3'' (Some ''Deploy'') (Some ''Ready''))]) \<and>
   filter (\<lambda>x. msg_id x = ''m3'')
     (messages (ex_log\<lparr>messages := [msg_n1, msg_n2,
         \<lparr>msg_id = ''m3'', title = ''Deploy'', body = ''Ready'', sentAt = 12,
           mtype = Notification, parentId = None, ui = None, data = None\<rparr>],
        subscriptions := [sub_a, sub_c]\<rparr>)) =
     [\<lparr>msg_id = ''m3'', title = ''Deploy'', body = ''Ready'', sentAt = 12,
        mtype = Notification, parentId = None, ui = None, data = None\<rparr>]"
proof -
  have t: "req_title ex_req = Some ''Deploy''" and b: "req_body ex_req = Some ''Ready''"
    by (simp_all add: ex_req_def)
  have fresh: "''m3'' \<notin> set (map msg_id (messages ex_log))"
    by (simp add: ex_log_def msg_n1_def msg_n2_def)
  have u: "stringifyOrNull ex_world (req_ui ex_req) = None"
    by (simp add: stringifyOrNull_def ex_req_def)
  from notify_persists_before_dispatch[OF t _ b _ fresh, of 12 ex_world]
  obtain db' res eff where
    "notify ex_world 12 ''m3'' ex_req ex_log = (db', NotifyOk ''m3'' res, eff)" and
    "filter (\<lambda>x. msg_id x = ''m3'') (messages db') =
       [\<lparr>msg_id = ''m3'', title = ''Deploy'', body = ''Ready'', sentAt = 12,
          mtype = Notification, parentId = None, ui = None, data = None\<rparr>]"
    by (auto simp: u)
  then have "filter (\<lambda>x. msg_id x = ''m3'')
     (messages (ex_log\<lparr>messages := [msg_n1, msg_n2,
         \<lparr>msg_id = ''m3'', title = ''Deploy'', body = ''Ready'', sentAt = 12,
           mtype = Notification, parentId = None, ui = None, data = None\<rparr>],
        subscriptions := [sub_a, sub_c]\<rparr>)) =
     [\<lparr>msg_id = ''m3'', title = ''Deploy'', body = ''Ready'', sentAt = 12,
        mtype = Notification, parentId = None, ui = None, data = None\<rparr>]"
    by (simp add: ex_notify)
  with t b fresh ex_notify show ?thesis by blast
qed

theorem notify_survives_push_failures_witness:
  "truthyS (req_title ex_req) \<and> truthyS (req_body ex_req) \<and>
   insertMessage 12 ''m3'' (req_title ex_req) (req_body ex_req) Notification None
     (stringifyOrNull ex_world (req_ui ex_req)) None ex_log =
   Inr (ex_log\<lparr>messages := [msg_n1, msg_n2,
     \<lparr>msg_id = ''m3'', title = ''Deploy'', body = ''Ready'', sentAt = 12, mtype = Notification,
       parentId = None, ui = None, data = None\<rparr>]\<rparr>) \<and>
   (\<exists>db' res eff. notify ex_world 12 ''m3'' ex_req ex_log = (db', NotifyOk ''m3'' res, eff) \<and>
      sent res = 1 \<and> failed res = 2 \<and> PushAttempt ''b'' ''{}'' None \<in> set eff)"
proof -
  let ?db1 = "ex_log\<lparr>messages := [msg_n1, msg_n2,
     \<lparr>msg_id = ''m3'', title = ''Deploy'', body = ''Ready'', sentAt = 12, mtype = Notification,
       parentId = None, ui = None, data = None\<rparr>]\<rparr>"
  have v: "truthyS (req_title ex_req)" "truthyS (req_body ex_req)"
    by (simp_all add: truthyS_def ex_req_def)
  have perm: "mset (settleOrder ex_world (getAllSubs ?db1)) = mset (getAllSubs ?db1)"
    by (simp add: ex_world_def)
  have p: "notifyPayload ex_world ex_req ''m3'' = ''{}''"
    by (simp add: notifyPayload_def ex_world_def)
  have d: "length (filter (\<lambda>s. sendNotification ex_world (pushSub s) ''{}'' None = Delivered)
      [sub_c, sub_a, sub_b]) = 1"
    by (simp add: ex_world_def pushSub_def sub_a_def sub_b_def sub_c_def)
  have e: "endpoint sub_b = ''b''"
    by (simp add: sub_b_def)
  from notify_survives_push_failures[OF v ex_insert perm]
  obtain db' res eff where
    n: "notify ex_world 12 ''m3'' ex_req ex_log = (db', NotifyOk ''m3'' res, eff)"
    and s: "sent res = 1" and t: "sent res + failed res = 3"
    and a: "\<forall>s \<in> set [sub_c, sub_a, sub_b]. PushAttempt (endpoint s) ''{}'' None \<in> set eff"
    unfolding p ex_log_subs d by auto
  from a e have "PushAttempt ''b'' ''{}'' None \<in> set eff" by auto
  moreover from s t have "failed res = 2" by simp
  ultimately show ?thesis using v ex_insert n s by blast
qed

section \<open>Webhooks\<close>

lemma split_comma_nonempty: "split_comma s \<noteq> []"
  by (induction s) (auto split: list.splits)

lemma join_split_comma: "join_comma (split_comma s) = s"
proof (induction s)
  case Nil
  show ?case by simp
next
  case (Cons c cs)
  obtain p ps where sp: "split_comma cs = p # ps"
    using split_comma_nonempty[of cs] by (cases "split_comma cs") auto
  show ?case
  proof (cases "c = CHR '',''")
    case True
    with Cons sp show ?thesis by simp
  next
    case False
    with Cons sp show ?thesis by (cases ps) auto
  qed
qed

lemma split_comma_pieces: "p \<in> set (split_comma s) \<Longrightarrow> CHR '','' \<notin> set p"
proof (induction s arbitrary: p)
  case Nil
  then show ?case by simp
next
  case (Cons c cs)
  obtain q qs where sp: "split_comma cs = q # qs"
    using split_comma_nonempty[of cs] by (cases "split_comma cs") auto
  show ?case
  proof (cases "c = CHR '',''")
    case True
    with Cons.prems have "p = [] \<or> p \<in> set (split_comma cs)" by simp
    with Cons.IH show ?thesis by auto
  next
    case False
    with Cons.prems sp have "p = c # q \<or> p \<in> set qs" by simp
    moreover have "CHR '','' \<notin> set q" using Cons.IH[of q] sp by simp
    moreover have "p \<in> set qs \<Longrightarrow> CHR '','' \<notin> set p" using Cons.IH[of p] sp by simp
    ultimately show ?thesis using False by auto
  qed
qed

lemma post_in_fireWebhooks:
  assumes uniq: "distinct (map url (webhooks db))" and h: "h \<in> set (webhooks db)"
  shows "(WebhookPost (url h) pl \<in> set (fireWebhooks k pl' db)) = (pl = pl' \<and> hookMatches k h)"
proof
  assume "WebhookPost (url h) pl \<in> set (fireWebhooks k pl' db)"
  then obtain h' where h': "h' \<in> set (webhooks db)" "hookMatches k h'" "url h' = url h" "pl = pl'"
    by (auto simp: fireWebhooks_def getAllWebhooks_def)
  have "inj_on url (set (webhooks db))" using uniq by (simp add: distinct_map)
  with h h'(1,3) have "h' = h" by (auto dest: inj_onD)
  with h'(2,4) show "pl = pl' \<and> hookMatches k h" by simp
next
  assume "pl = pl' \<and> hookMatches k h"
  with h show "WebhookPost (url h) pl \<in> set (fireWebhooks k pl' db)"
    by (auto simp: fireWebhooks_def getAllWebhooks_def)
qed

lemma respond_effects:
  assumes "respond w now uuid rq db = (db', resp, eff)"
  shows "eff = [] \<or>
         (\<exists>par. resp = RespondOk uuid \<and> webhooks db' = webhooks db \<and>
            eff = InsertedMessage uuid #
                  Broadcast (WsResponse uuid par (req_text rq) (req_data rq)) #
                  fireWebhooks ''response'' (ResponseEvent uuid par (req_text rq) (req_data rq)) db')"
  using assms
  by (auto simp: respond_def Let_def split: if_splits sum.splits dest!: insertMessage_rows)

lemma respond_ok_effects:
  assumes "respond w now uuid rq db = (db', RespondOk rid, eff)"
  shows "\<exists>par. rid = uuid \<and> webhooks db' = webhooks db \<and>
            eff = InsertedMessage uuid #
                  Broadcast (WsResponse uuid par (req_text rq) (req_data rq)) #
                  fireWebhooks ''response'' (ResponseEvent uuid par (req_text rq) (req_data rq)) db'"
  using assms
  by (auto simp: respond_def Let_def split: if_splits sum.splits dest!: insertMessage_rows)

lemma notify_ok_effects:
  assumes "notify w now uuid rq db = (db', NotifyOk mid res, eff)"
  shows "\<exists>subs. mid = uuid \<and> webhooks db' = webhooks db \<and>
            eff = InsertedMessage uuid # pushAttempts subs (notifyPayload w rq uuid) None @
                  Broadcast (WsNotification uuid (req_title rq) (req_body rq)
                    (if truthyJ (req_ui rq) then req_ui rq else None)) #
                  fireWebhooks ''notification''
                    (NotificationEvent uuid (req_title rq) (req_body rq)) db'"
  using assms
  by (auto simp: notify_def Let_def split: if_splits sum.splits prod.splits
        dest!: insertMessage_rows sendToAll_frame)

lemma fireWebhooks_cong: "webhooks db' = webhooks db \<Longrightarrow> fireWebhooks k pl db' = fireWebhooks k pl db"
  by (simp add: fireWebhooks_def getAllWebhooks_def)

text \<open>
  C6. For a registered webhook \<open>h\<close> (urls are unique in the table), an event of kind \<open>k\<close>
  is posted to the url of \<open>h\<close> exactly when the events field of \<open>h\<close> is \<open>*\<close> or \<open>k\<close> is one of
  the pieces of that field between its commas (joined by commas the pieces give the field
  back, and no piece holds a comma: membership is exact, with no trimming). In particular
  a webhook registered for \<open>notification\<close> gets no post from a respond operation, whatever
  its outcome, and a webhook registered for \<open>*\<close> gets a post from every successful respond
  and from every successful notify request.
\<close>

theorem webhook_filter:
  assumes uniq: "distinct (map url (webhooks db))" and h: "h \<in> set (webhooks db)"
  shows "((WebhookPost (url h) pl \<in> set (fireWebhooks k pl db)) =
            (events h = ''*'' \<or> k \<in> set (split_comma (events h)))) \<and>
         join_comma (split_comma (events h)) = events h \<and>
         (\<forall>p \<in> set (split_comma (events h)). CHR '','' \<notin> set p) \<and>
         (events h = ''notification'' \<and> respond w now uuid rq db = (db', resp, eff) \<longrightarrow>
            WebhookPost (url h) pl \<notin> set eff) \<and>
         (events h = ''*'' \<and> respond w now uuid rq db = (db', RespondOk rid, eff) \<longrightarrow>
            (\<exists>par. WebhookPost (url h) (ResponseEvent rid par (req_text rq) (req_data rq))
                     \<in> set eff)) \<and>
         (events h = ''*'' \<and> notify w now uuid nq db = (db'', NotifyOk mid res, eff') \<longrightarrow>
            WebhookPost (url h) (NotificationEvent mid (req_title nq) (req_body nq)) \<in> set eff')"
proof (intro conjI impI)
  show "(WebhookPost (url h) pl \<in> set (fireWebhooks k pl db)) =
          (events h = ''*'' \<or> k \<in> set (split_comma (events h)))"
    by (simp add: post_in_fireWebhooks[OF uniq h] hookMatches_def)
next
  show "join_comma (split_comma (events h)) = events h"
    by (rule join_split_comma)
next
  show "\<forall>p \<in> set (split_comma (events h)). CHR '','' \<notin> set p"
    by (simp add: split_comma_pieces)
next
  assume a: "events h = ''notification'' \<and> respond w now uuid rq db = (db', resp, eff)"
  then have nm: "\<not> hookMatches ''response'' h" by (simp add: hookMatches_def)
  from a respond_effects[of w now uuid rq db db' resp eff]
  consider "eff = []"
    | par where "fireWebhooks ''response'' (ResponseEvent uuid par (req_text rq) (req_data rq)) db' =
                 fireWebhooks ''response'' (ResponseEvent uuid par (req_text rq) (req_data rq)) db"
        "eff = InsertedMessage uuid #
               Broadcast (WsResponse uuid par (req_text rq) (req_data rq)) #
               fireWebhooks ''response'' (ResponseEvent uuid par (req_text rq) (req_data rq)) db'"
    by (blast intro: fireWebhooks_cong)
  then show "WebhookPost (url h) pl \<notin> set eff"
  proof cases
    case 1
    then show ?thesis by simp
  next
    case 2
    then show ?thesis
      using nm by (simp add: post_in_fireWebhooks[OF uniq h])
  qed
next
  assume a: "events h = ''*'' \<and> respond w now uuid rq db = (db', RespondOk rid, eff)"
  then have m: "hookMatches ''response'' h" by (simp add: hookMatches_def)
  from a respond_ok_effects[of w now uuid rq db db' rid eff] obtain par where
    "rid = uuid"
    "fireWebhooks ''response'' (ResponseEvent uuid par (req_text rq) (req_data rq)) db' =
     fireWebhooks ''response'' (ResponseEvent uuid par (req_text rq) (req_data rq)) db"
    "eff = InsertedMessage uuid #
           Broadcast (WsResponse uuid par (req_text rq) (req_data rq)) #
           fireWebhooks ''response'' (ResponseEvent uuid par (req_text rq) (req_data rq)) db'"
    by (blast intro: fireWebhooks_cong)
  then have "WebhookPost (url h) (ResponseEvent rid par (req_text rq) (req_data rq)) \<in> set eff"
    using m by (simp add: post_in_fireWebhooks[OF uniq h])
  then show "\<exists>par. WebhookPost (url h) (ResponseEvent rid par (req_text rq) (req_data rq)) \<in> set eff"
    by blast
next
  assume a: "events h = ''*'' \<and> notify w now uuid nq db = (db'', NotifyOk mid res, eff')"
  then have m: "hookMatches ''notification'' h" by (simp add: hookMatches_def)
  from a notify_ok_effects[of w now uuid nq db db'' mid res eff'] obtain subs where
    "mid = uuid"
    "fireWebhooks ''notification'' (NotificationEvent uuid (req_title nq) (req_body nq)) db'' =
     fireWebhooks ''notification'' (NotificationEvent uuid (req_title nq) (req_body nq)) db"
    "eff' = InsertedMessage uuid # pushAttempts subs (notifyPayload w nq uuid) None @
            Broadcast (WsNotification uuid (req_title nq) (req_body nq)
              (if truthyJ (req_ui nq) then req_ui nq else None)) #
            fireWebhooks ''notification''
              (NotificationEvent uuid (req_title nq) (req_body nq)) db''"
    by (blast intro: fireWebhooks_cong)
  then show "WebhookPost (url h) (NotificationEvent mid (req_title nq) (req_body nq)) \<in> set eff'"
    using m by (simp add: post_in_fireWebhooks[OF uniq h])
qed

theorem webhook_filter_witness:
  "distinct (map url (webhooks ex_log)) \<and>
   hook_n \<in> set (webhooks ex_log) \<and> events hook_n = ''notification'' \<and>
   hook_all \<in> set (webhooks ex_log) \<and> events hook_all = ''*'' \<and>
   hook_list \<in> set (webhooks ex_log) \<and>
   split_comma (events hook_list) = [''response'', ''notification''] \<and>
   WebhookPost (url hook_n) (ResponseEvent ''r1'' (Some ''n1'') (Some ''approved'') None)
     \<notin> set (snd (snd (respond ex_world 11 ''r1''
         \<lparr>req_messageId = None, req_text = Some ''approved'', req_data = None\<rparr> ex_log))) \<and>
   WebhookPost (url hook_all) (ResponseEvent ''r1'' (Some ''n1'') (Some ''approved'') None)
     \<in> set (snd (snd (respond ex_world 11 ''r1''
         \<lparr>req_messageId = None, req_text = Some ''approved'', req_data = None\<rparr> ex_log))) \<and>
   WebhookPost (url hook_all) (NotificationEvent ''m3'' (Some ''Deploy'') (Some ''Ready''))
     \<in> set (snd (snd (notify ex_world 12 ''m3'' ex_req ex_log))) \<and>
   WebhookPost (url hook_list) (ResponseEvent ''r1'' None None None)
     \<in> set (fireWebhooks ''response'' (ResponseEvent ''r1'' None None None) ex_log) \<and>
   WebhookPost (url hook_n) (ResponseEvent ''r1'' None None None)
     \<notin> set (fireWebhooks ''response'' (ResponseEvent ''r1'' None None None) ex_log)"
proof -
  have uniq: "distinct (map url (webhooks ex_log))"
    by (simp add: ex_log_def hook_n_def hook_all_def hook_list_def)
  have hn: "hook_n \<in> set (webhooks ex_log)" and ha: "hook_all \<in> set (webhooks ex_log)"
    and hl: "hook_list \<in> set (webhooks ex_log)"
    by (simp_all add: ex_log_def)
  have en: "events hook_n = ''notification''" and ea: "events hook_all = ''*''"
    and el: "split_comma (events hook_list) = [''response'', ''notification'']"
    by (simp_all add: hook_n_def hook_all_def hook_list_def)
  have rq: "req_text \<lparr>req_messageId = None, req_text = Some ''approved'', req_data = None\<rparr> =
      Some ''approved''"
    "req_data \<lparr>req_messageId = None, req_text = Some ''approved'', req_data = None\<rparr> = None"
    by simp_all
  have nq: "req_title ex_req = Some ''Deploy''" "req_body ex_req = Some ''Ready''"
    by (simp_all add: ex_req_def)
  let ?rq = "\<lparr>req_messageId = None, req_text = Some ''approved'', req_data = None\<rparr>"
  let ?pl = "ResponseEvent ''r1'' (Some ''n1'') (Some ''approved'') None"
  let ?dbr = "ex_log\<lparr>messages := [msg_n1, msg_n2,
         \<lparr>msg_id = ''r1'', title = ''Response'', body = ''approved'', sentAt = 11,
           mtype = Response, parentId = Some ''n1'', ui = None, data = None\<rparr>]\<rparr>"
  let ?effr = "[InsertedMessage ''r1'',
       Broadcast (WsResponse ''r1'' (Some ''n1'') (Some ''approved'') None),
       WebhookPost ''http://all'' ?pl, WebhookPost ''http://list'' ?pl]"
  have r: "respond ex_world 11 ''r1'' ?rq ex_log = (?dbr, RespondOk ''r1'', ?effr)"
    by (rule ex_respond)
  have sr: "snd (snd (respond ex_world 11 ''r1'' ?rq ex_log)) = ?effr"
    by (simp add: r)
  from webhook_filter[OF uniq hn, where w=ex_world and now=11 and uuid="''r1''"
      and rq="?rq" and pl="?pl" and db'="?dbr" and resp="RespondOk ''r1''" and eff="?effr"] en r
  have "WebhookPost (url hook_n) ?pl \<notin> set ?effr"
    by blast
  then have c1: "WebhookPost (url hook_n) ?pl \<notin> set (snd (snd (respond ex_world 11 ''r1'' ?rq ex_log)))"
    unfolding sr by simp
  from webhook_filter[OF uniq ha, where w=ex_world and now=11 and uuid="''r1''"
      and rq="?rq" and db'="?dbr" and rid="''r1''" and eff="?effr"] ea r
  obtain par where "WebhookPost (url hook_all) (ResponseEvent ''r1'' par (req_text ?rq) (req_data ?rq))
      \<in> set ?effr"
    by blast
  then have "WebhookPost (url hook_all) ?pl \<in> set ?effr"
    by auto
  then have c2: "WebhookPost (url hook_all) ?pl \<in> set (snd (snd (respond ex_world 11 ''r1'' ?rq ex_log)))"
    unfolding sr by simp
  obtain dbn resn effn where n: "notify ex_world 12 ''m3'' ex_req ex_log = (dbn, NotifyOk ''m3'' resn, effn)"
    using ex_notify by blast
  from webhook_filter[OF uniq ha, where w=ex_world and now=12 and uuid="''m3''"
      and nq=ex_req and db''=dbn and mid="''m3''" and res=resn and eff'=effn] ea n
  have "WebhookPost (url hook_all) (NotificationEvent ''m3'' (req_title ex_req) (req_body ex_req))
      \<in> set effn"
    by blast
  then have c3: "WebhookPost (url hook_all) (NotificationEvent ''m3'' (Some ''Deploy'') (Some ''Ready''))
     \<in> set (snd (snd (notify ex_world 12 ''m3'' ex_req ex_log)))"
    by (simp add: n nq)
  from webhook_filter[OF uniq hl, where k="''response''"
      and pl="ResponseEvent ''r1'' None None None"] el
  have c4: "WebhookPost (url hook_list) (ResponseEvent ''r1'' None None None)
     \<in> set (fireWebhooks ''response'' (ResponseEvent ''r1'' None None None) ex_log)"
    by simp
  from webhook_filter[OF uniq hn, where k="''response''"
      and pl="ResponseEvent ''r1'' None None None"] en
  have c5: "WebhookPost (url hook_n) (ResponseEvent ''r1'' None None None)
     \<notin> set (fireWebhooks ''response'' (ResponseEvent ''r1'' None None None) ex_log)"
    by simp
  from uniq hn ha hl en ea el c1 c2 c3 c4 c5 show ?thesis by blast
qed

section \<open>The default parent of a response\<close>

text \<open>The head of a stable sort is the first element of the list with the least key.\<close>

lemma sort_key_head:
  fixes f :: "'a \<Rightarrow> int"
  assumes "sort_key f xs = m # rest"
  shows "\<exists>xs1 xs2. xs = xs1 @ m # xs2 \<and> (\<forall>x \<in> set xs1. f m < f x) \<and>
           (\<forall>x \<in> set xs2. f m \<le> f x)"
  using assms
proof (induction xs arbitrary: m rest)
  case Nil
  then show ?case by simp
next
  case (Cons x xs)
  show ?case
  proof (cases "sort_key f xs")
    case Nil
    then have "xs = []" by (metis length_sort length_0_conv)
    with Cons.prems have "m = x" by simp
    with \<open>xs = []\<close> show ?thesis by (intro exI[of _ "[]"]) simp
  next
    case (Cons y ys)
    from Cons.IH[OF Cons] obtain xs1 xs2 where
      xs: "xs = xs1 @ y # xs2" and lt: "\<forall>z \<in> set xs1. f y < f z" and le: "\<forall>z \<in> set xs2. f y \<le> f z"
      by blast
    show ?thesis
    proof (cases "f x \<le> f y")
      case True
      with Cons Cons.prems have "m = x" by simp
      moreover from True lt le xs have "\<forall>z \<in> set xs. f x \<le> f z" by fastforce
      ultimately show ?thesis by (intro exI[of _ "[]"] exI[of _ xs]) simp
    next
      case False
      with Cons Cons.prems have "m = y" by simp
      moreover from False have "f y < f x" by simp
      ultimately show ?thesis
        using xs lt le by (intro exI[of _ "x # xs1"] exI[of _ xs2]) simp
    qed
  qed
qed

lemma latestNotification_None:
  "(latestNotification db = None) = (\<forall>m \<in> set (messages db). mtype m \<noteq> Notification)"
proof -
  let ?ns = "filter (\<lambda>m. mtype m = Notification) (messages db)"
  have "(sort_key (\<lambda>m. - int (sentAt m)) ?ns = []) = (?ns = [])"
    by (metis length_sort length_0_conv)
  then show ?thesis
    by (auto simp: latestNotification_def filter_empty_conv split: list.splits)
qed

lemma latestNotification_Some:
  assumes "latestNotification db = Some i"
  shows "\<exists>ns1 m ns2. filter (\<lambda>m. mtype m = Notification) (messages db) = ns1 @ m # ns2 \<and>
           msg_id m = i \<and> (\<forall>x \<in> set ns1. sentAt x < sentAt m) \<and>
           (\<forall>x \<in> set ns2. sentAt x \<le> sentAt m)"
proof -
  let ?ns = "filter (\<lambda>m. mtype m = Notification) (messages db)"
  from assms obtain m rest where
    s: "sort_key (\<lambda>m. - int (sentAt m)) ?ns = m # rest" and i: "msg_id m = i"
    by (auto simp: latestNotification_def split: list.splits)
  from sort_key_head[OF s] i show ?thesis by fastforce
qed

lemma latestNotification_known:
  assumes "latestNotification db = Some i"
  shows "i \<in> set (map msg_id (messages db))"
proof -
  from latestNotification_Some[OF assms] obtain ns1 m ns2 where
    f: "filter (\<lambda>m. mtype m = Notification) (messages db) = ns1 @ m # ns2" and i: "msg_id m = i"
    by blast
  have "m \<in> set (filter (\<lambda>m. mtype m = Notification) (messages db))"
    unfolding f by simp
  then have "m \<in> set (messages db)" by simp
  with i show ?thesis by auto
qed

text \<open>
  What the respond handler does when \<^verbatim>\<open>messageId\<close> is omitted (or empty), text or data is
  given and the identifier is fresh: it answers \<open>{ok: true, responseId}\<close> and appends one
  response row with the fixed title. The row's \<open>parentId\<close> is NULL exactly when the log holds
  no notification; otherwise it is the id of a notification \<open>m\<close> such that every
  notification recorded before \<open>m\<close> has an earlier \<open>sentAt\<close> and none recorded after \<open>m\<close> has
  a later one: the first recorded of the notifications with the latest \<open>sentAt\<close>.
\<close>

theorem respond_default_parent:
  assumes omitted: "\<not> truthyS (req_messageId rq)"
    and valid: "truthyS (req_text rq) \<or> truthyJ (req_data rq)"
    and fresh: "uuid \<notin> set (map msg_id (messages db))"
  shows "\<exists>r eff.
           respond w now uuid rq db = (db\<lparr>messages := messages db @ [r]\<rparr>, RespondOk uuid, eff) \<and>
           msg_id r = uuid \<and> mtype r = Response \<and> title r = ''Response'' \<and>
           parentId r = latestNotification db \<and>
           ((parentId r = None) = (\<forall>m \<in> set (messages db). mtype m \<noteq> Notification)) \<and>
           (\<forall>i. parentId r = Some i \<longrightarrow>
              (\<exists>ns1 m ns2.
                 filter (\<lambda>m. mtype m = Notification) (messages db) = ns1 @ m # ns2 \<and>
                 msg_id m = i \<and>
                 (\<forall>x \<in> set ns1. sentAt x < sentAt m) \<and>
                 (\<forall>x \<in> set ns2. sentAt x \<le> sentAt m)))"
proof -
  let ?par = "latestNotification db"
  let ?body = "if truthyS (req_text rq) then req_text rq else Some []"
  have "\<exists>b. ?body = Some b"
    by (cases "req_text rq") (simp_all add: truthyS_def)
  then obtain b where b: "?body = Some b" ..
  let ?r = "\<lparr>msg_id = uuid, title = ''Response'', body = b, sentAt = now, mtype = Response,
      parentId = ?par, ui = None, data = stringifyOrNull w (req_data rq)\<rparr>"
  have fk: "\<not> (case ?par of None \<Rightarrow> False
      | Some q \<Rightarrow> q \<notin> set (map msg_id (messages db)) \<and> q \<noteq> uuid)"
    using latestNotification_known[of db] by (cases ?par) auto
  have ins: "insertMessage now uuid (Some ''Response'') ?body Response ?par None
      (stringifyOrNull w (req_data rq)) db = Inr (db\<lparr>messages := messages db @ [?r]\<rparr>)"
    unfolding b using fresh fk by (simp add: insertMessage_def)
  have ret: "\<exists>eff. respond w now uuid rq db =
      (db\<lparr>messages := messages db @ [?r]\<rparr>, RespondOk uuid, eff)"
    using omitted valid ins by (auto simp: respond_def Let_def)
  have none: "(parentId ?r = None) = (\<forall>m \<in> set (messages db). mtype m \<noteq> Notification)"
    by (simp add: latestNotification_None)
  have some: "\<forall>i. parentId ?r = Some i \<longrightarrow>
      (\<exists>ns1 m ns2.
         filter (\<lambda>m. mtype m = Notification) (messages db) = ns1 @ m # ns2 \<and>
         msg_id m = i \<and>
         (\<forall>x \<in> set ns1. sentAt x < sentAt m) \<and>
         (\<forall>x \<in> set ns2. sentAt x \<le> sentAt m))"
    using latestNotification_Some[of db] by simp
  from ret obtain eff where
    "respond w now uuid rq db = (db\<lparr>messages := messages db @ [?r]\<rparr>, RespondOk uuid, eff)"
    by blast
  with none some show ?thesis
    by (intro exI[of _ ?r] exI[of _ eff]) simp
qed

text \<open>
  C4 at two notifications recorded within the same second, \<open>n1\<close> and then \<open>n2\<close>: a respond
  request without \<^verbatim>\<open>messageId\<close> is linked to \<open>n1\<close>, not to \<open>n2\<close>, the notification
  recorded last.
\<close>

theorem respond_same_second_links_first:
  "messages ex_log = [msg_n1, msg_n2] \<and>
   mtype msg_n1 = Notification \<and> mtype msg_n2 = Notification \<and>
   sentAt msg_n1 = sentAt msg_n2 \<and>
   latestNotification ex_log = Some (msg_id msg_n1) \<and>
   respond ex_world 11 ''r1''
       \<lparr>req_messageId = None, req_text = Some ''approved'', req_data = None\<rparr> ex_log =
     (ex_log\<lparr>messages := [msg_n1, msg_n2,
         \<lparr>msg_id = ''r1'', title = ''Response'', body = ''approved'', sentAt = 11,
           mtype = Response, parentId = Some (msg_id msg_n1), ui = None, data = None\<rparr>]\<rparr>,
      RespondOk ''r1'',
      [InsertedMessage ''r1'',
       Broadcast (WsResponse ''r1'' (Some (msg_id msg_n1)) (Some ''approved'') None),
       WebhookPost ''http://all''
         (ResponseEvent ''r1'' (Some (msg_id msg_n1)) (Some ''approved'') None),
       WebhookPost ''http://list''
         (ResponseEvent ''r1'' (Some (msg_id msg_n1)) (Some ''approved'') None)])"
proof -
  have i: "msg_id msg_n1 = ''n1''" by (simp add: msg_n1_def)
  have "latestNotification ex_log = Some ''n1''"
    by (simp add: latestNotification_def ex_log_def msg_n1_def msg_n2_def)
  moreover have "messages ex_log = [msg_n1, msg_n2]" by (simp add: ex_log_def)
  moreover have "mtype msg_n1 = Notification" "mtype msg_n2 = Notification"
    "sentAt msg_n1 = sentAt msg_n2"
    by (simp_all add: msg_n1_def msg_n2_def)
  ultimately show ?thesis
    unfolding i using ex_respond by simp
qed

theorem respond_default_parent_witness:
  "\<not> truthyS (req_messageId \<lparr>req_messageId = None, req_text = Some ''ok'', req_data = None\<rparr>) \<and>
   truthyS (req_text \<lparr>req_messageId = None, req_text = Some ''ok'', req_data = None\<rparr>) \<and>
   ''r1'' \<notin> set (map msg_id (messages ex_db)) \<and>
   messages ex_db = [] \<and>
   (\<exists>r eff. respond ex_world 11 ''r1''
        \<lparr>req_messageId = None, req_text = Some ''ok'', req_data = None\<rparr> ex_db =
        (ex_db\<lparr>messages := messages ex_db @ [r]\<rparr>, RespondOk ''r1'', eff) \<and>
      msg_id r = ''r1'' \<and> parentId r = None)"
proof -
  let ?rq = "\<lparr>req_messageId = None, req_text = Some ''ok'', req_data = None\<rparr>"
  have o: "\<not> truthyS (req_messageId ?rq)" and v: "truthyS (req_text ?rq)"
    by (simp_all add: truthyS_def)
  have e: "messages ex_db = []" by (simp add: ex_db_def)
  then have f: "''r1'' \<notin> set (map msg_id (messages ex_db))" by simp
  from v have v': "truthyS (req_text ?rq) \<or> truthyJ (req_data ?rq)" by blast
  from respond_default_parent[OF o v' f, of ex_world 11] e
  have "\<exists>r eff. respond ex_world 11 ''r1'' ?rq ex_db =
        (ex_db\<lparr>messages := messages ex_db @ [r]\<rparr>, RespondOk ''r1'', eff) \<and>
      msg_id r = ''r1'' \<and> parentId r = None"
    by auto
  with o v f e show ?thesis by blast
qed

section \<open>The schema's constraints hold in every state\<close>

lemma wf_db_filter_subs:
  assumes "wf_db db" and "subscriptions db' = filter P (subscriptions db)"
    and "sub_seq db' = sub_seq db" and "messages db' = messages db" and "webhooks db' = webhooks db"
  shows "wf_db db'"
  using assms by (auto simp: wf_db_def distinct_map_filter list_all_iff)

lemma sendToAll_rows:
  "sendToAll w subs payload db = (db', r) \<Longrightarrow>
     \<exists>P. subscriptions db' = filter P (subscriptions db)"
  by (auto simp: sendToAll_def sendToAll_fold)

lemma purge_rows:
  "purge w db = (db', resp, eff) \<Longrightarrow> \<exists>P. subscriptions db' = filter P (subscriptions db)"
  by (auto simp: purge_def Let_def purge_fold)

lemma wf_db_insertMessage:
  assumes "wf_db db" and "insertMessage now i t b ty par u d db = Inr db'"
  shows "wf_db db'"
  using assms(1) insertMessage_rows[OF assms(2)] by (auto simp: wf_db_def)

lemma wf_db_sendToAll:
  assumes "wf_db db" and "sendToAll w subs payload db = (db', r)"
  shows "wf_db db'"
proof -
  from sendToAll_rows[OF assms(2)] obtain P where "subscriptions db' = filter P (subscriptions db)" ..
  with assms(1) sendToAll_frame[OF assms(2)] show ?thesis
    by (intro wf_db_filter_subs[of db db' P]) simp_all
qed

lemma wf_db_insertSub:
  assumes "wf_db db" and "insertSub now e p a db = Inr db'"
  shows "wf_db db'"
  using assms
  by (auto simp: wf_db_def insertSub_def distinct_map_filter list_all_iff le_SucI
        split: option.splits)

lemma wf_db_insertWebhook:
  assumes "wf_db db" and "insertWebhook now u ev db = Inr db'"
  shows "wf_db db'"
  using assms
  by (auto simp: wf_db_def insertWebhook_def distinct_map_filter split: option.splits)

text \<open>
  The uniqueness of endpoints, urls and message ids, assumed of the database in several
  statements above, holds of the empty database and is kept by every operation.
\<close>

lemma wf_db_emptyDb: "wf_db emptyDb"
  by (simp add: wf_db_def emptyDb_def)

lemma wf_db_preserved:
  assumes wf: "wf_db db" and step: "handle w now uuid rq db = (db', resp, eff)"
  shows "wf_db db'"
proof (cases rq)
  case (PostSubscribe req)
  with wf step show ?thesis
    by (auto simp: subscribe_def Let_def split: if_splits sum.splits dest: wf_db_insertSub)
next
  case (DeleteSubscribe e)
  with wf step show ?thesis
    by (auto simp: unsubscribe_def Let_def deleteSub_def wf_db_def distinct_map_filter list_all_iff
          split: if_splits)
next
  case (PostNotify req)
  with wf step show ?thesis
    by (auto simp: notify_def Let_def split: if_splits sum.splits prod.splits
          dest: wf_db_insertMessage wf_db_sendToAll)
next
  case (PostRespond req)
  with wf step show ?thesis
    by (auto simp: respond_def Let_def split: if_splits sum.splits dest: wf_db_insertMessage)
next
  case PostPurge
  with step have p: "purge w db = (db', resp, eff)" by simp
  from purge_rows[OF p] obtain P where "subscriptions db' = filter P (subscriptions db)" ..
  with wf purge_frame[OF p] show ?thesis
    by (intro wf_db_filter_subs[of db db' P]) simp_all
next
  case (PostWebhooks req)
  with wf step show ?thesis
    by (auto simp: addWebhook_def split: if_splits sum.splits dest: wf_db_insertWebhook)
next
  case (DeleteWebhooks u)
  with wf step show ?thesis
    by (auto simp: removeWebhook_def deleteWebhook_def wf_db_def distinct_map_filter
          split: if_splits)
next
  case (WsMessage raw)
  with wf step show ?thesis
    by (auto simp: wsMessage_def Let_def split: if_splits sum.splits prod.splits ws_input.splits
          dest: wf_db_insertMessage wf_db_sendToAll)
qed

end
